theory Spec2Isabelle
  imports Complex_Main "HOL-Library.Word"
begin

section \<open>Machine types of the Go program\<close>

text \<open>
  Go's fixed-width integers are words: \<open>int32\<close> and \<open>int64\<close> are read with \<open>sint\<close>,
  \<open>uint64\<close> with \<open>uint\<close>. A Go \<open>string\<close> is a byte sequence, here a \<open>char list\<close>.
  \<open>time.Time\<close> is an opaque instant, \<open>time.Duration\<close> an \<open>int64\<close> count of nanoseconds.
\<close>

type_synonym int32 = "32 word"
type_synonym int64 = "64 word"
type_synonym uint16 = "16 word"
type_synonym uint32 = "32 word"
type_synonym uint64 = "64 word"
type_synonym Time = int
type_synonym Duration = int64

subsection \<open>float64\<close>

text \<open>
  An IEEE-754 binary64 value is NaN, an infinity or a finite number. Finite numbers are
  carried as reals; every arithmetic result is rounded to the nearest binary64 number
  (ties to even) by \<open>round64\<close>. The sign of zero is not represented: the program only
  divides by values converted from \<open>uint64\<close>, whose zero is \<open>+0\<close>.
\<close>

datatype float64 = NaN | PosInf | NegInf | Finite real

text \<open>The integer nearest to \<open>q\<close>, the even one of two nearest.\<close>

definition round_even :: "real \<Rightarrow> int" where
  "round_even q =
     (let f = \<lfloor>q\<rfloor> in
      if q - of_int f < 1 / 2 then f
      else if q - of_int f > 1 / 2 then f + 1
      else if even f then f else f + 1)"

text \<open>The binary exponent of a positive number, \<open>\<lfloor>log\<^sub>2 x\<rfloor>\<close>, by halving and doubling.\<close>

function floor_log2 :: "real \<Rightarrow> int" where
  "floor_log2 x =
     (if x \<le> 0 then 0
      else if 2 \<le> x then floor_log2 (x / 2) + 1
      else if x < 1 then floor_log2 (x * 2) - 1
      else 0)"
  by pat_completeness auto
termination
proof (relation "measure (\<lambda>x. nat \<bar>\<lfloor>log 2 x\<rfloor>\<bar>)", goal_cases)
  case 1
  show ?case by simp
next
  case (2 x)
  then have "log 2 (x / 2) = log 2 x - 1" by (simp add: log_divide)
  moreover have "1 \<le> \<lfloor>log 2 x\<rfloor>" using 2 by (simp add: le_floor_iff le_log_iff)
  ultimately show ?case by simp
next
  case (3 x)
  then have "log 2 (x * 2) = log 2 x + 1" by (simp add: log_mult)
  then have a: "\<lfloor>log 2 (x * 2)\<rfloor> = \<lfloor>log 2 x\<rfloor> + 1" by simp
  have b: "\<lfloor>log 2 x\<rfloor> < 0" using 3 by (simp add: floor_less_iff)
  have "nat \<bar>\<lfloor>log 2 (x * 2)\<rfloor>\<bar> < nat \<bar>\<lfloor>log 2 x\<rfloor>\<bar>"
    unfolding a using b by linarith
  then show ?case by simp
qed

declare floor_log2.simps [simp del]

text \<open>
  A binary64 number near \<open>x\<close> is a multiple of \<open>2\<close> to the power \<open>quantum_exp x\<close>: 53
  significant bits, and never below the least subnormal exponent. A rounded value of
  magnitude \<open>2\<^sup>1\<^sup>0\<^sup>2\<^sup>4\<close> or more overflows to an infinity.
\<close>

definition quantum_exp :: "real \<Rightarrow> int" where
  "quantum_exp x = max (floor_log2 \<bar>x\<bar> - 52) (- 1074)"

definition round_real :: "real \<Rightarrow> real" where
  "round_real x =
     (if x = 0 then 0
      else of_int (round_even (x / 2 powi quantum_exp x)) * 2 powi quantum_exp x)"

definition round64 :: "real \<Rightarrow> float64" where
  "round64 x =
     (let r = round_real x in
      if r \<noteq> 0 \<and> 1024 \<le> floor_log2 \<bar>r\<bar> then (if 0 < r then PosInf else NegInf)
      else Finite r)"

definition float64_of_uint64 :: "uint64 \<Rightarrow> float64" where
  "float64_of_uint64 w = round64 (of_int (uint w))"

fun f64_add :: "float64 \<Rightarrow> float64 \<Rightarrow> float64" where
  "f64_add NaN _ = NaN"
| "f64_add _ NaN = NaN"
| "f64_add PosInf NegInf = NaN"
| "f64_add NegInf PosInf = NaN"
| "f64_add PosInf _ = PosInf"
| "f64_add _ PosInf = PosInf"
| "f64_add NegInf _ = NegInf"
| "f64_add _ NegInf = NegInf"
| "f64_add (Finite a) (Finite b) = round64 (a + b)"

fun f64_neg :: "float64 \<Rightarrow> float64" where
  "f64_neg NaN = NaN"
| "f64_neg PosInf = NegInf"
| "f64_neg NegInf = PosInf"
| "f64_neg (Finite a) = Finite (- a)"

definition f64_sub :: "float64 \<Rightarrow> float64 \<Rightarrow> float64" where
  "f64_sub a b = f64_add a (f64_neg b)"

fun f64_div :: "float64 \<Rightarrow> float64 \<Rightarrow> float64" where
  "f64_div NaN _ = NaN"
| "f64_div _ NaN = NaN"
| "f64_div (Finite a) (Finite b) =
     (if b = 0 then (if a = 0 then NaN else if 0 < a then PosInf else NegInf)
      else round64 (a / b))"
| "f64_div (Finite a) _ = Finite 0"
| "f64_div PosInf (Finite b) = (if 0 \<le> b then PosInf else NegInf)"
| "f64_div NegInf (Finite b) = (if 0 \<le> b then NegInf else PosInf)"
| "f64_div _ _ = NaN"

text \<open>Comparisons: every comparison with NaN is false.\<close>

fun f64_lt :: "float64 \<Rightarrow> float64 \<Rightarrow> bool" where
  "f64_lt NaN _ = False"
| "f64_lt _ NaN = False"
| "f64_lt _ NegInf = False"
| "f64_lt NegInf _ = True"
| "f64_lt PosInf _ = False"
| "f64_lt _ PosInf = True"
| "f64_lt (Finite a) (Finite b) = (a < b)"

definition f64_gt :: "float64 \<Rightarrow> float64 \<Rightarrow> bool" where
  "f64_gt a b = f64_lt b a"

fun f64_le :: "float64 \<Rightarrow> float64 \<Rightarrow> bool" where
  "f64_le NaN _ = False"
| "f64_le _ NaN = False"
| "f64_le NegInf _ = True"
| "f64_le _ PosInf = True"
| "f64_le _ NegInf = False"
| "f64_le PosInf _ = False"
| "f64_le (Finite a) (Finite b) = (a \<le> b)"

section \<open>Standard library functions used by the filters\<close>

subsection \<open>strings.ToLower and strings.EqualFold\<close>

text \<open>
  These functions belong to Go's standard library, not to the repository; the
  definitions follow the library. Both are modelled on bytes, as Go computes them for
  ASCII strings: the letters \<open>A\<close> to \<open>Z\<close> fold to \<open>a\<close> to \<open>z\<close>, every other byte is
  kept. (For names outside ASCII Go folds by Unicode tables, which are not modelled.)
\<close>

definition lower_byte :: "char \<Rightarrow> char" where
  "lower_byte c =
     (if 65 \<le> (of_char c :: nat) \<and> (of_char c :: nat) \<le> 90
      then char_of ((of_char c :: nat) + 32) else c)"

definition ToLower :: "string \<Rightarrow> string" where
  "ToLower s = map lower_byte s"

text \<open>
  \<open>EqualFold\<close> walks both strings together; two bytes agree when they are equal or when
  the smaller one is an upper-case letter and the larger one its lower-case form.
\<close>

definition fold_eq_byte :: "char \<Rightarrow> char \<Rightarrow> bool" where
  "fold_eq_byte sr tr =
     (if tr = sr then True
      else
        (let lo = (if (of_char tr :: nat) < of_char sr then tr else sr);
             hi = (if (of_char tr :: nat) < of_char sr then sr else tr)
         in 65 \<le> (of_char lo :: nat) \<and> (of_char lo :: nat) \<le> 90
            \<and> (of_char hi :: nat) = of_char lo + 32))"

fun EqualFold :: "string \<Rightarrow> string \<Rightarrow> bool" where
  "EqualFold [] [] = True"
| "EqualFold (sr # s) (tr # t) = (if fold_eq_byte sr tr then EqualFold s t else False)"
| "EqualFold _ _ = False"

subsection \<open>path/filepath.Match\<close>

text \<open>
  The shell pattern matcher of Go's standard library (Unix variant: the separator is
  \<open>/\<close> and backslash escapes), on bytes: \<open>*\<close> matches any run of characters other than
  the separator, \<open>?\<close> one such character, \<open>[...]\<close> a character of a class, any other
  character itself. \<open>Match\<close> returns the pair of Go's results: whether the name matched
  and the error, which can only be \<open>ErrBadPattern\<close>. The general theorems below hold for
  any matcher; only the evaluations at concrete names depend on this definition.
\<close>

datatype match_error = ErrBadPattern

definition Separator :: char where
  "Separator = CHR ''/''"

definition backslash :: char where
  "backslash = CHR 0x5C"

text \<open>\<open>scanChunk\<close>: strip leading stars, then cut the pattern before the next star
  that is outside a character class.\<close>

fun skip_stars :: "string \<Rightarrow> bool \<times> string" where
  "skip_stars [] = (False, [])"
| "skip_stars (c # cs) = (if c = CHR ''*'' then (True, snd (skip_stars cs)) else (False, c # cs))"

fun scan_to_star :: "bool \<Rightarrow> string \<Rightarrow> string \<times> string" where
  "scan_to_star inrange [] = ([], [])"
| "scan_to_star inrange [c] =
     (if c = CHR ''*'' \<and> \<not> inrange then ([], [c]) else ([c], []))"
| "scan_to_star inrange (c # d # ds) =
     (if c = backslash then
        (case scan_to_star inrange ds of (chunk, rest) \<Rightarrow> (c # d # chunk, rest))
      else if c = CHR ''['' then
        (case scan_to_star True (d # ds) of (chunk, rest) \<Rightarrow> (c # chunk, rest))
      else if c = CHR '']'' then
        (case scan_to_star False (d # ds) of (chunk, rest) \<Rightarrow> (c # chunk, rest))
      else if c = CHR ''*'' \<and> \<not> inrange then ([], c # d # ds)
      else (case scan_to_star inrange (d # ds) of (chunk, rest) \<Rightarrow> (c # chunk, rest)))"

definition scanChunk :: "string \<Rightarrow> bool \<times> string \<times> string" where
  "scanChunk pattern =
     (case skip_stars pattern of (star, p) \<Rightarrow> (star, scan_to_star False p))"

text \<open>\<open>getEsc\<close>: one possibly escaped character of a character class; the class must
  go on after it.\<close>

definition getEsc :: "string \<Rightarrow> match_error + (char \<times> string)" where
  "getEsc chunk =
     (case chunk of
        [] \<Rightarrow> Inl ErrBadPattern
      | c # cs \<Rightarrow>
          if c = CHR ''-'' \<or> c = CHR '']'' then Inl ErrBadPattern
          else
            (case (if c = backslash then cs else chunk) of
               [] \<Rightarrow> Inl ErrBadPattern
             | r # nchunk \<Rightarrow> if nchunk = [] then Inl ErrBadPattern else Inr (r, nchunk)))"

lemma getEsc_shorter: "getEsc chunk = Inr (r, nchunk) \<Longrightarrow> length nchunk < length chunk"
  by (auto simp: getEsc_def split: list.splits if_splits)

lemma getEsc_nonempty: "getEsc chunk = Inr (r, nchunk) \<Longrightarrow> nchunk \<noteq> []"
  by (auto simp: getEsc_def split: list.splits if_splits)

text \<open>The ranges of a character class, up to its closing bracket: \<open>r\<close> is the character
  of the name under test, \<open>nrange\<close> counts the ranges read so far.\<close>

function class_ranges :: "char \<Rightarrow> nat \<Rightarrow> bool \<Rightarrow> string \<Rightarrow> match_error + (bool \<times> string)" where
  "class_ranges r nrange match chunk =
     (if chunk \<noteq> [] \<and> hd chunk = CHR '']'' \<and> 0 < nrange then Inr (match, tl chunk)
      else
        (case getEsc chunk of
           Inl e \<Rightarrow> Inl e
         | Inr (lo, chunk1) \<Rightarrow>
             if hd chunk1 = CHR ''-'' then
               (case getEsc (tl chunk1) of
                  Inl e \<Rightarrow> Inl e
                | Inr (hi, chunk2) \<Rightarrow>
                    class_ranges r (nrange + 1)
                      (match \<or> ((of_char lo :: nat) \<le> of_char r \<and> (of_char r :: nat) \<le> of_char hi))
                      chunk2)
             else
               class_ranges r (nrange + 1)
                 (match \<or> ((of_char lo :: nat) \<le> of_char r \<and> (of_char r :: nat) \<le> of_char lo))
                 chunk1))"
  by pat_completeness auto
termination
proof (relation "measure (\<lambda>(r, nrange, match, chunk). length chunk)", goal_cases)
  case 1
  show ?case by simp
next
  case (2 r nrange match chunk x2 lo chunk1 x2a hi chunk2)
  have "length chunk2 < length (tl chunk1)"
    using 2 getEsc_shorter by metis
  moreover have "length chunk1 < length chunk"
    using 2 getEsc_shorter by metis
  ultimately show ?case by simp
next
  case (3 r nrange match chunk x2 lo chunk1)
  then show ?case using getEsc_shorter by auto
qed

lemma class_ranges_shorter:
  "class_ranges r nrange match chunk = Inr (m, rest) \<Longrightarrow> length rest \<le> length chunk"
proof (induction r nrange match chunk rule: class_ranges.induct)
  case (1 r nrange match chunk)
  show ?case
  proof (cases "chunk \<noteq> [] \<and> hd chunk = CHR '']'' \<and> 0 < nrange")
    case True
    with "1.prems" show ?thesis by auto
  next
    case False
    from "1.prems" False obtain lo chunk1 where g1: "getEsc chunk = Inr (lo, chunk1)"
      by (auto split: sum.splits)
    have l1: "length chunk1 < length chunk" using g1 by (rule getEsc_shorter)
    show ?thesis
    proof (cases "hd chunk1 = CHR ''-''")
      case True
      from "1.prems" False g1 True obtain hi chunk2 where g2: "getEsc (tl chunk1) = Inr (hi, chunk2)"
        by (auto split: sum.splits)
      have l2: "length chunk2 < length (tl chunk1)" using g2 by (rule getEsc_shorter)
      have "length rest \<le> length chunk2"
        using "1.IH"(1) [OF False g1 refl True g2 refl] "1.prems" False g1 True g2
        by simp
      with l1 l2 show ?thesis by simp
    next
      case hf: False
      have "length rest \<le> length chunk1"
        using "1.IH"(2) [OF False g1 refl hf] "1.prems" False g1 hf
        by simp
      with l1 show ?thesis by simp
    qed
  qed
qed

declare class_ranges.simps [simp del]

text \<open>
  \<open>matchChunk\<close>: does the chunk (literals, \<open>?\<close> and character classes) match a prefix
  of \<open>s\<close>? The result is the error, or \<open>None\<close> for no match, or the rest of \<open>s\<close>. Once
  the match has failed the loop only goes on checking that the chunk is well formed.
\<close>

function matchChunk_loop :: "bool \<Rightarrow> string \<Rightarrow> string \<Rightarrow> match_error + string option" where
  "matchChunk_loop failed [] s = Inr (if failed then None else Some s)"
| "matchChunk_loop failed0 (c # chunk) s =
     (let failed = (failed0 \<or> s = []) in
      if c = CHR ''['' then
        (let r = (if failed then CHR 0x00 else hd s);
             s1 = (if failed then s else tl s);
             negated = (chunk \<noteq> [] \<and> hd chunk = CHR ''^'');
             chunk1 = (if negated then tl chunk else chunk)
         in case class_ranges r 0 False chunk1 of
              Inl e \<Rightarrow> Inl e
            | Inr (match, chunk2) \<Rightarrow> matchChunk_loop (failed \<or> match = negated) chunk2 s1)
      else if c = CHR ''?'' then
        (if failed then matchChunk_loop failed chunk s
         else matchChunk_loop (hd s = Separator) chunk (tl s))
      else if c = backslash then
        (case chunk of
           [] \<Rightarrow> Inl ErrBadPattern
         | d # ds \<Rightarrow>
             if failed then matchChunk_loop failed ds s
             else matchChunk_loop (d \<noteq> hd s) ds (tl s))
      else
        (if failed then matchChunk_loop failed chunk s
         else matchChunk_loop (c \<noteq> hd s) chunk (tl s)))"
  by pat_completeness auto
termination
proof (relation "measure (\<lambda>(failed, chunk, s). length chunk)", goal_cases)
  case (2 failed0 c chunk s x xa xb xc xd x2 match chunk2)
  have "length chunk2 \<le> length xd"
    using 2 class_ranges_shorter by metis
  moreover have "length xd \<le> length chunk"
    using 2 by auto
  ultimately show ?case by simp
qed auto

definition matchChunk :: "string \<Rightarrow> string \<Rightarrow> match_error + string option" where
  "matchChunk chunk s = matchChunk_loop False chunk s"

text \<open>After a star: try the chunk at every later position of the name, up to the next
  separator. \<open>final\<close> says that the pattern ends with this chunk, so the name must be used up.\<close>

fun star_search :: "string \<Rightarrow> bool \<Rightarrow> string \<Rightarrow> match_error + string option" where
  "star_search chunk final [] = Inr None"
| "star_search chunk final (c # name) =
     (if c = Separator then Inr None
      else
        (case matchChunk chunk name of
           Inr (Some t) \<Rightarrow> if final \<and> t \<noteq> [] then star_search chunk final name else Inr (Some t)
         | Inl e \<Rightarrow> Inl e
         | Inr None \<Rightarrow> star_search chunk final name))"

lemma skip_stars_length: "length (snd (skip_stars p)) \<le> length p"
  by (induction p) auto

lemma skip_stars_no_star: "snd (skip_stars p) = c # cs \<Longrightarrow> c \<noteq> CHR ''*''"
  by (induction p) (auto split: if_splits)

lemma scan_to_star_length:
  "scan_to_star inrange p = (chunk, rest) \<Longrightarrow> length rest \<le> length p"
proof (induction inrange p arbitrary: chunk rest rule: scan_to_star.induct)
  case (1 inrange)
  then show ?case by simp
next
  case (2 inrange c)
  then show ?case by (auto split: if_splits)
next
  case (3 inrange c d ds)
  show ?case
  proof (cases "c = backslash")
    case True
    obtain a b where ab: "scan_to_star inrange ds = (a, b)" by (cases "scan_to_star inrange ds")
    from "3.IH"(1) [OF True ab] have "length b \<le> length ds" .
    moreover from "3.prems" True ab have "rest = b" by simp
    ultimately show ?thesis by simp
  next
    case nb: False
    show ?thesis
    proof (cases "c = CHR ''[''")
      case True
      obtain a b where ab: "scan_to_star True (d # ds) = (a, b)" by (cases "scan_to_star True (d # ds)")
      from "3.IH"(2) [OF nb True ab] have "length b \<le> length (d # ds)" .
      moreover from "3.prems" nb True ab have "rest = b" by simp
      ultimately show ?thesis by simp
    next
      case no: False
      show ?thesis
      proof (cases "c = CHR '']''")
        case True
        obtain a b where ab: "scan_to_star False (d # ds) = (a, b)" by (cases "scan_to_star False (d # ds)")
        from "3.IH"(3) [OF nb no True ab] have "length b \<le> length (d # ds)" .
        moreover from "3.prems" nb no True ab have "rest = b" by simp
        ultimately show ?thesis by simp
      next
        case nc: False
        show ?thesis
        proof (cases "c = CHR ''*'' \<and> \<not> inrange")
          case True
          with "3.prems" nb no nc show ?thesis by auto
        next
          case ns: False
          obtain a b where ab: "scan_to_star inrange (d # ds) = (a, b)" by (cases "scan_to_star inrange (d # ds)")
          from "3.IH"(4) [OF nb no nc ns ab] have "length b \<le> length (d # ds)" .
          moreover from "3.prems" nb no nc ns ab have "rest = b" by auto
          ultimately show ?thesis by simp
        qed
      qed
    qed
  qed
qed

lemma scan_to_star_progress:
  "scan_to_star inrange (c # cs) = (chunk, rest) \<Longrightarrow> c \<noteq> CHR ''*'' \<Longrightarrow> length rest < length (c # cs)"
  by (cases cs) (auto split: if_splits prod.splits dest: scan_to_star_length)

lemma scanChunk_shorter:
  assumes "pattern \<noteq> []" and "scanChunk pattern = (star, chunk, rest)"
  shows "length rest < length pattern"
proof (cases "snd (skip_stars pattern)")
  case Nil
  with assms show ?thesis
    by (auto simp: scanChunk_def split: prod.splits)
next
  case (Cons c cs)
  have ns: "c \<noteq> CHR ''*''" using Cons by (rule skip_stars_no_star)
  from assms Cons have "scan_to_star False (c # cs) = (chunk, rest)"
    by (auto simp: scanChunk_def split: prod.splits)
  from scan_to_star_progress [OF this ns] have "length rest < length (c # cs)" .
  moreover have "length (c # cs) \<le> length pattern"
    using skip_stars_length [of pattern] Cons by simp
  ultimately show ?thesis by simp
qed

lemma scanChunk_shorter_sym:
  "pattern \<noteq> [] \<Longrightarrow> (star, chunk, rest) = scanChunk pattern \<Longrightarrow> length rest < length pattern"
  using scanChunk_shorter [of pattern star chunk rest] by simp

text \<open>When the name cannot match, the rest of the pattern is still checked for syntax.\<close>

function check_rest :: "string \<Rightarrow> match_error option" where
  "check_rest pattern =
     (if pattern = [] then None
      else
        (case scanChunk pattern of
           (star, chunk, rest) \<Rightarrow>
             (case matchChunk chunk [] of
                Inl e \<Rightarrow> Some e
              | Inr _ \<Rightarrow> check_rest rest)))"
  by pat_completeness auto
termination
  by (relation "measure length") (auto dest: scanChunk_shorter_sym)

declare check_rest.simps [simp del]

function Match :: "string \<Rightarrow> string \<Rightarrow> bool \<times> match_error option" where
  "Match pattern name =
     (if pattern = [] then (name = [], None)
      else
        (case scanChunk pattern of
           (star, chunk, rest) \<Rightarrow>
             if star \<and> chunk = [] then (Separator \<notin> set name, None)
             else
               (case matchChunk chunk name of
                  Inr (Some t) \<Rightarrow>
                    if t = [] \<or> rest \<noteq> [] then Match rest t
                    else if star then
                      (case star_search chunk (rest = []) name of
                         Inl e \<Rightarrow> (False, Some e)
                       | Inr (Some t') \<Rightarrow> Match rest t'
                       | Inr None \<Rightarrow> (False, check_rest rest))
                    else (False, check_rest rest)
                | Inl e \<Rightarrow> (False, Some e)
                | Inr None \<Rightarrow>
                    if star then
                      (case star_search chunk (rest = []) name of
                         Inl e \<Rightarrow> (False, Some e)
                       | Inr (Some t') \<Rightarrow> Match rest t'
                       | Inr None \<Rightarrow> (False, check_rest rest))
                    else (False, check_rest rest))))"
  by pat_completeness auto
termination
  by (relation "measure (\<lambda>(pattern, name). length pattern)") (auto dest: scanChunk_shorter_sym)

declare Match.simps [simp del]
declare matchChunk_loop.simps [simp del]

subsection \<open>fmt.Sprintf with the verb \<open>%d\<close>\<close>

function dec_digits :: "nat \<Rightarrow> string" where
  "dec_digits n =
     (if n < 10 then [char_of (48 + n)]
      else dec_digits (n div 10) @ [char_of (48 + n mod 10)])"
  by pat_completeness auto
termination
  by (relation "measure id") auto

declare dec_digits.simps [simp del]

definition format_d :: "int \<Rightarrow> string" where
  "format_d i = (if i < 0 then CHR ''-'' # dec_digits (nat (- i)) else dec_digits (nat i))"

section \<open>Data model (types/events.go)\<close>

datatype EventType = ProcessCreated | ProcessTerminated | ProcessModified

datatype ModificationType =
    MemoryModification
  | ThreadCreation
  | HandleTableChange
  | PrivilegeChange
  | BehaviorChange
  | CommandLineChange
  | ThreadCountChange
  | HandleCountChange
  | WorkingDirectoryChange

record MemoryRegion =
  BaseAddress :: uint64
  Size :: uint64
  Protection :: uint32
  State :: uint32
  Type :: uint32
  Usage :: string

record NetworkConnection =
  LocalIP :: string
  LocalPort :: uint16
  RemoteIP :: string
  RemotePort :: uint16
  Status :: string
  Protocol :: string
  ProcessID :: int32
  CreateTime :: Time

text \<open>
  The handle of package \<open>process\<close> (gopsutil), as far as \<open>getProcessInfo\<close> reads it: the
  process id and the result of every accessor, an error (\<open>Inl\<close>) or a value. \<open>MemoryInfo\<close>
  returns a pointer, which may be nil. The record is declared before \<open>ProcessInfo\<close>, so
  its accessors are written with their qualified names.
\<close>

type_synonym 'a result = "string + 'a"

record MemoryInfoStat =
  RSS :: uint64
  VMS :: uint64

record Process =
  Pid :: int32
  Name :: "string result"
  CreateTime :: "int64 result"
  Ppid :: "int32 result"
  Exe :: "string result"
  Cmdline :: "string result"
  Username :: "string result"
  CPUPercent :: "float64 result"
  NumThreads :: "int32 result"
  Cwd :: "string result"
  MemoryInfo :: "MemoryInfoStat option result"

record ProcessInfo =
  PID :: int32
  Name :: string
  CreateTime :: int64
  ParentPID :: int32
  Executable :: string
  CommandLine :: string
  Username :: string
  CPUPercent :: float64
  MemoryUsage :: uint64
  NumThreads :: int32
  Cwd :: string
  ThreadCount :: int32
  HandleCount :: int32
  MemoryRegions :: "MemoryRegion list"
  Privileges :: "string list"
  NetworkConns :: "NetworkConnection list"

text \<open>The \<open>interface{}\<close> values of a modification record hold a string, an \<open>int32\<close> or
  a \<open>uint64\<close>.\<close>

datatype Value = StringValue string | Int32Value int32 | Uint64Value uint64

record ProcessModification =
  Timestamp :: Time
  ProcessID :: int32
  ModType :: ModificationType
  OldValue :: Value
  NewValue :: Value
  Description :: string

record ProcessEvent =
  Type :: EventType
  Timestamp :: Time
  Process :: ProcessInfo
  ModType :: ModificationType
  Description :: string

section \<open>Configuration (config/config.go)\<close>

record MonitoringConfig =
  PollInterval :: Duration
  EnableEventLogging :: bool
  LogPath :: string
  MemoryChangeThreshold :: float64
  CPUThreshold :: float64
  ThreadChangeThreshold :: int32
  HandleChangeThreshold :: int32
  MonitorCommandLine :: bool
  MonitorMemory :: bool
  MonitorThreads :: bool
  MonitorHandles :: bool
  MonitorWorkingDir :: bool
  MonitorConnections :: bool
  ExcludedProcesses :: "string list"
  IncludedProcesses :: "string list"
  ExcludedUsers :: "string list"
  ProcessPriorityThreshold :: int32
  MaxProcessesToMonitor :: int32
  ProcessAgeThreshold :: Duration

definition Millisecond :: Duration where
  "Millisecond = 1000000"

definition Second :: Duration where
  "Second = 1000000000"

definition Minute :: Duration where
  "Minute = 60000000000"

definition DefaultConfig :: MonitoringConfig where
  "DefaultConfig =
     \<lparr> PollInterval = Second,
       EnableEventLogging = True,
       LogPath = ''process_monitor.log'',
       MemoryChangeThreshold = round64 (1 / 10),
       CPUThreshold = round64 (3 / 4),
       ThreadChangeThreshold = 2,
       HandleChangeThreshold = 10,
       MonitorCommandLine = True,
       MonitorMemory = True,
       MonitorThreads = True,
       MonitorHandles = True,
       MonitorWorkingDir = True,
       MonitorConnections = False,
       ExcludedProcesses = [''svchost.exe'', ''RuntimeBroker.exe''],
       IncludedProcesses = [],
       ExcludedUsers = [''root''],
       ProcessPriorityThreshold = 32768,
       MaxProcessesToMonitor = 1000,
       ProcessAgeThreshold = 1 * Minute \<rparr>"

text \<open>\<open>Validate\<close> returns the error (its message) or nil.\<close>

definition Validate :: "MonitoringConfig \<Rightarrow> string option" where
  "Validate c =
     (if PollInterval c <s Millisecond * 100 then
        Some ''poll interval too short, minimum 100ms''
      else if f64_le (MemoryChangeThreshold c) (Finite 0) \<or> f64_gt (MemoryChangeThreshold c) (Finite 1) then
        Some ''memory change threshold must be between 0 and 1''
      else if f64_le (CPUThreshold c) (Finite 0) \<or> f64_gt (CPUThreshold c) (Finite 1) then
        Some ''CPU threshold must be between 0 and 1''
      else if ThreadChangeThreshold c <s 0 then
        Some ''thread change threshold must be non-negative''
      else if HandleChangeThreshold c <s 0 then
        Some ''handle change threshold must be non-negative''
      else None)"

text \<open>
  \<open>LoadConfig\<close> reads a file and lets the YAML decoder overwrite the fields of the default
  configuration. The file system and the decoder are outside the program: the result of
  \<open>os.ReadFile\<close> and the decoder are parameters.
\<close>

definition LoadConfig ::
  "string result \<Rightarrow> (string \<Rightarrow> MonitoringConfig \<Rightarrow> MonitoringConfig result) \<Rightarrow> MonitoringConfig result" where
  "LoadConfig readFile unmarshal =
     (case readFile of
        Inl err \<Rightarrow> Inl (''error reading config file: '' @ err)
      | Inr configFile \<Rightarrow>
          (case unmarshal configFile DefaultConfig of
             Inl err \<Rightarrow> Inl (''error parsing config file: '' @ err)
           | Inr config \<Rightarrow>
               (case Validate config of
                  Some err \<Rightarrow> Inl (''invalid configuration: '' @ err)
                | None \<Rightarrow> Inr config)))"

section \<open>The dedicated filter (config package, ProcessFilter)\<close>

text \<open>Each loop of \<open>ShouldMonitorProcess\<close> is a function that says whether the loop body
  returned or set its flag.\<close>

fun name_excluded :: "string list \<Rightarrow> string \<Rightarrow> bool" where
  "name_excluded [] processName = False"
| "name_excluded (excluded # rest) processName =
     (if fst (Match (ToLower excluded) processName) then True
      else name_excluded rest processName)"

fun name_included :: "string list \<Rightarrow> string \<Rightarrow> bool" where
  "name_included [] processName = False"
| "name_included (includedProc # rest) processName =
     (if fst (Match (ToLower includedProc) processName) then True
      else name_included rest processName)"

fun user_excluded :: "string list \<Rightarrow> string \<Rightarrow> bool" where
  "user_excluded [] username = False"
| "user_excluded (excludedUser # rest) username =
     (if ToLower excludedUser = username then True else user_excluded rest username)"

definition ShouldMonitorProcess :: "MonitoringConfig \<Rightarrow> ProcessInfo \<Rightarrow> bool" where
  "ShouldMonitorProcess c info =
     (let processName = ToLower (Name info) in
      if name_excluded (ExcludedProcesses c) processName then False
      else if 0 < length (IncludedProcesses c)
              \<and> \<not> name_included (IncludedProcesses c) processName then False
      else if user_excluded (ExcludedUsers c) (ToLower (Username info)) then False
      else True)"

section \<open>The collector (collector/process_collector.go)\<close>

subsection \<open>The collector's own filter\<close>

text \<open>The first loop also logs the exclusion; the log is not modelled.\<close>

fun excluded_by_pattern :: "string list \<Rightarrow> string \<Rightarrow> bool" where
  "excluded_by_pattern [] processName = False"
| "excluded_by_pattern (excluded # rest) processName =
     (case Match (ToLower excluded) processName of
        (matched, err) \<Rightarrow>
          if err = None \<and> matched then True else excluded_by_pattern rest processName)"

fun equal_fold_any :: "string list \<Rightarrow> string \<Rightarrow> bool" where
  "equal_fold_any [] s = False"
| "equal_fold_any (entry # rest) s = (if EqualFold s entry then True else equal_fold_any rest s)"

definition shouldMonitorProcess :: "MonitoringConfig \<Rightarrow> ProcessInfo \<Rightarrow> bool" where
  "shouldMonitorProcess c info =
     (let processName = ToLower (Name info) in
      if excluded_by_pattern (ExcludedProcesses c) processName then False
      else if equal_fold_any (ExcludedProcesses c) (Name info) then False
      else if 0 < length (IncludedProcesses c)
              \<and> \<not> equal_fold_any (IncludedProcesses c) (Name info) then False
      else if equal_fold_any (ExcludedUsers c) (Username info) then False
      else True)"

subsection \<open>Building a snapshot\<close>

text \<open>\<open>utils.SetField\<close> stores the getter's value unless the getter failed; the model
  returns the field's new content.\<close>

definition SetField :: "'a \<Rightarrow> 'a result \<Rightarrow> 'a" where
  "SetField field getter = (case getter of Inr v \<Rightarrow> v | Inl err \<Rightarrow> field)"

text \<open>\<open>getProcessInfo\<close> returns the record and the error. Fields that are not set keep
  Go's zero value.\<close>

definition getProcessInfo :: "Process \<Rightarrow> ProcessInfo \<times> string option" where
  "getProcessInfo p =
     (let info =
        \<lparr> PID = Pid p,
          Name = SetField [] (Process.Name p),
          CreateTime = SetField 0 (Process.CreateTime p),
          ParentPID = SetField 0 (Ppid p),
          Executable = SetField [] (Exe p),
          CommandLine = SetField [] (Cmdline p),
          Username = SetField [] (Process.Username p),
          CPUPercent = SetField (Finite 0) (Process.CPUPercent p),
          MemoryUsage = 0,
          NumThreads = SetField 0 (Process.NumThreads p),
          Cwd = SetField [] (Process.Cwd p),
          ThreadCount = 0,
          HandleCount = 0,
          MemoryRegions = [],
          Privileges = [],
          NetworkConns = [] \<rparr>
      in
        (case MemoryInfo p of
           Inr (Some memInfo) \<Rightarrow> (info\<lparr>MemoryUsage := RSS memInfo\<rparr>, None)
         | _ \<Rightarrow> (info, None)))"

text \<open>
  A Go map from process id to record is an association list with one entry per key. The
  order of the list stands for the order in which \<open>range\<close> visits the map, which Go
  leaves open; no theorem below depends on it.
\<close>

type_synonym snapshot = "(int32 \<times> ProcessInfo) list"

fun map_store :: "snapshot \<Rightarrow> int32 \<Rightarrow> ProcessInfo \<Rightarrow> snapshot" where
  "map_store [] pid info = [(pid, info)]"
| "map_store ((k, v) # m) pid info =
     (if k = pid then (pid, info) # m else (k, v) # map_store m pid info)"

fun collect :: "MonitoringConfig \<Rightarrow> Process list \<Rightarrow> snapshot \<Rightarrow> snapshot" where
  "collect c [] processes = processes"
| "collect c (p # procs) processes =
     (case getProcessInfo p of
        (info, err) \<Rightarrow>
          if err \<noteq> None then collect c procs processes
          else if ShouldMonitorProcess c info then collect c procs (map_store processes (Pid p) info)
          else collect c procs processes)"

text \<open>The argument \<open>enumeration\<close> is what \<open>process.Processes()\<close> returned.\<close>

definition getRunningProcesses :: "MonitoringConfig \<Rightarrow> Process list result \<Rightarrow> snapshot result" where
  "getRunningProcesses c enumeration =
     (case enumeration of
        Inl err \<Rightarrow> Inl (''failed to get processes: '' @ err)
      | Inr procs \<Rightarrow> Inr (collect c procs []))"

subsection \<open>Field comparisons\<close>

text \<open>
  \<open>int32(math.Abs(float64(d)))\<close>: every \<open>int32\<close> is a binary64 number, and so is its
  absolute value. For the least \<open>int32\<close> the absolute value is not an \<open>int32\<close> and Go
  leaves the conversion to the platform; the model takes the result on amd64, the least
  \<open>int32\<close> again.
\<close>

definition abs_int32 :: "int32 \<Rightarrow> int32" where
  "abs_int32 d = (if d <s 0 then - d else d)"

text \<open>The body of \<open>detectModifications\<close> after its guard. \<open>timestamp\<close> is the reading of
  \<open>time.Now()\<close>.\<close>

definition fieldComparisons ::
  "MonitoringConfig \<Rightarrow> Time \<Rightarrow> ProcessInfo \<Rightarrow> ProcessInfo \<Rightarrow> ProcessModification list" where
  "fieldComparisons c timestamp old new =
     (if MonitorCommandLine c \<and> CommandLine old \<noteq> CommandLine new then
        [\<lparr> ProcessModification.Timestamp = timestamp,
           ProcessModification.ProcessID = PID new,
           ProcessModification.ModType = CommandLineChange,
           OldValue = StringValue (CommandLine old),
           NewValue = StringValue (CommandLine new),
           ProcessModification.Description = ''Command line modified'' \<rparr>]
      else [])
     @
     (if MonitorThreads c then
        (let threadDiff = abs_int32 (ThreadCount new - ThreadCount old) in
         if ThreadChangeThreshold c \<le>s threadDiff then
           [\<lparr> ProcessModification.Timestamp = timestamp,
              ProcessModification.ProcessID = PID new,
              ProcessModification.ModType = ThreadCountChange,
              OldValue = Int32Value (ThreadCount old),
              NewValue = Int32Value (ThreadCount new),
              ProcessModification.Description =
                ''Thread count changed by '' @ format_d (sint threadDiff) \<rparr>]
         else [])
      else [])
     @
     (if MonitorHandles c then
        (let handleDiff = abs_int32 (HandleCount new - HandleCount old) in
         if HandleChangeThreshold c \<le>s handleDiff then
           [\<lparr> ProcessModification.Timestamp = timestamp,
              ProcessModification.ProcessID = PID new,
              ProcessModification.ModType = HandleCountChange,
              OldValue = Int32Value (HandleCount old),
              NewValue = Int32Value (HandleCount new),
              ProcessModification.Description =
                ''Handle count changed by '' @ format_d (sint handleDiff) \<rparr>]
         else [])
      else [])
     @
     (if MonitorMemory c then
        (let memDiff = f64_div (float64_of_uint64 (MemoryUsage new)) (float64_of_uint64 (MemoryUsage old)) in
         if f64_lt memDiff (f64_sub (Finite 1) (MemoryChangeThreshold c))
            \<or> f64_gt memDiff (f64_add (Finite 1) (MemoryChangeThreshold c)) then
           [\<lparr> ProcessModification.Timestamp = timestamp,
              ProcessModification.ProcessID = PID new,
              ProcessModification.ModType = MemoryModification,
              OldValue = Uint64Value (MemoryUsage old),
              NewValue = Uint64Value (MemoryUsage new),
              ProcessModification.Description = ''Significant memory usage change'' \<rparr>]
         else [])
      else [])
     @
     (if MonitorWorkingDir c \<and> Cwd old \<noteq> Cwd new then
        [\<lparr> ProcessModification.Timestamp = timestamp,
           ProcessModification.ProcessID = PID new,
           ProcessModification.ModType = WorkingDirectoryChange,
           OldValue = StringValue (Cwd old),
           NewValue = StringValue (Cwd new),
           ProcessModification.Description = ''Working directory changed'' \<rparr>]
      else [])"

definition detectModifications ::
  "MonitoringConfig \<Rightarrow> Time \<Rightarrow> ProcessInfo \<Rightarrow> ProcessInfo \<Rightarrow> ProcessModification list" where
  "detectModifications c timestamp old new =
     (if \<not> shouldMonitorProcess c new then [] else fieldComparisons c timestamp old new)"

subsection \<open>The poll loop\<close>

text \<open>
  The collector's state is the retained snapshot; its configuration and filter never
  change and are the parameter \<open>c\<close>. Sending on the channel appends to the list of events;
  \<open>now\<close> is the reading of the clock during the tick.
\<close>

record ProcessCollector =
  currentProcesses :: snapshot

definition modified_event :: "ProcessInfo \<Rightarrow> ProcessModification \<Rightarrow> ProcessEvent" where
  "modified_event newInfo m =
     \<lparr> Type = ProcessModified,
       Timestamp = ProcessModification.Timestamp m,
       Process = newInfo,
       ModType = ProcessModification.ModType m,
       Description = ProcessModification.Description m \<rparr>"

definition created_event :: "Time \<Rightarrow> ProcessInfo \<Rightarrow> ProcessEvent" where
  "created_event now newInfo =
     \<lparr> Type = ProcessCreated, Timestamp = now, Process = newInfo,
       ModType = MemoryModification, Description = [] \<rparr>"

definition terminated_event :: "Time \<Rightarrow> ProcessInfo \<Rightarrow> ProcessEvent" where
  "terminated_event now info =
     \<lparr> Type = ProcessTerminated, Timestamp = now, Process = info,
       ModType = MemoryModification, Description = [] \<rparr>"

text \<open>The first loop of a tick, over the new snapshot.\<close>

fun check_new :: "MonitoringConfig \<Rightarrow> Time \<Rightarrow> snapshot \<Rightarrow> snapshot \<Rightarrow> ProcessEvent list" where
  "check_new c now current [] = []"
| "check_new c now current ((pid, newInfo) # rest) =
     (case map_of current pid of
        Some oldInfo \<Rightarrow>
          (if ShouldMonitorProcess c newInfo then
             map (modified_event newInfo) (detectModifications c now oldInfo newInfo)
           else [])
      | None \<Rightarrow>
          (if ShouldMonitorProcess c newInfo then [created_event now newInfo] else []))
     @ check_new c now current rest"

text \<open>The second loop, over the retained snapshot.\<close>

fun check_terminated :: "MonitoringConfig \<Rightarrow> Time \<Rightarrow> snapshot \<Rightarrow> snapshot \<Rightarrow> ProcessEvent list" where
  "check_terminated c now newSnapshot [] = []"
| "check_terminated c now newSnapshot ((pid, info) # rest) =
     (if map_of newSnapshot pid = None then
        (if ShouldMonitorProcess c info then [terminated_event now info] else [])
      else [])
     @ check_terminated c now newSnapshot rest"

text \<open>The section of a tick under the lock, before the snapshot is replaced: the events
  it sends for the retained snapshot \<open>current\<close> and the new one.\<close>

definition diff_events ::
  "MonitoringConfig \<Rightarrow> Time \<Rightarrow> snapshot \<Rightarrow> snapshot \<Rightarrow> ProcessEvent list" where
  "diff_events c now current newSnapshot =
     check_new c now current newSnapshot @ check_terminated c now newSnapshot current"

text \<open>One tick: the events sent and the collector afterwards.\<close>

definition tick ::
  "MonitoringConfig \<Rightarrow> Time \<Rightarrow> Process list result \<Rightarrow> ProcessCollector \<Rightarrow> ProcessEvent list \<times> ProcessCollector" where
  "tick c now enumeration pc =
     (case getRunningProcesses c enumeration of
        Inl err \<Rightarrow> ([], pc)
      | Inr newSnapshot \<Rightarrow>
          (diff_events c now (currentProcesses pc) newSnapshot,
           pc\<lparr>currentProcesses := newSnapshot\<rparr>))"

text \<open>
  \<open>Monitor\<close> runs over the cases its \<open>select\<close> takes, in order: the context is done, or
  the ticker fires (with the clock reading and the enumeration of that tick). It yields
  whether it returned, the events sent and the collector. When the list of cases ends
  the loop is still waiting in \<open>select\<close>.
\<close>

datatype select_case = CtxDone | TickerC Time "Process list result"

fun Monitor ::
  "MonitoringConfig \<Rightarrow> select_case list \<Rightarrow> ProcessCollector \<Rightarrow> bool \<times> ProcessEvent list \<times> ProcessCollector" where
  "Monitor c [] pc = (False, [], pc)"
| "Monitor c (CtxDone # cases) pc = (True, [], pc)"
| "Monitor c (TickerC now enumeration # cases) pc =
     (case tick c now enumeration pc of
        (sent, pc') \<Rightarrow>
          (case Monitor c cases pc' of
             (returned, later, pc'') \<Rightarrow> (returned, sent @ later, pc'')))"

definition NewProcessCollector :: ProcessCollector where
  "NewProcessCollector = \<lparr> currentProcesses = [] \<rparr>"

section \<open>The specification's statements\<close>

subsection \<open>The filter rules\<close>

text \<open>
  The rules of the filter as the specification words them: a name glob-matches an entry
  without regard to case when the lower-cased entry, as a pattern, matches the lower-cased
  name (a malformed pattern matches nothing); two user names are equal without regard to
  case when their lower-cased forms are equal.
\<close>

definition glob_matches_ci :: "string \<Rightarrow> string \<Rightarrow> bool" where
  "glob_matches_ci name entry = fst (Match (ToLower entry) (ToLower name))"

definition equals_ci :: "string \<Rightarrow> string \<Rightarrow> bool" where
  "equals_ci a b = (ToLower a = ToLower b)"

definition spec_shouldMonitor :: "MonitoringConfig \<Rightarrow> ProcessInfo \<Rightarrow> bool" where
  "spec_shouldMonitor c info =
     (if \<exists>entry \<in> set (ExcludedProcesses c). glob_matches_ci (Name info) entry then False
      else if IncludedProcesses c \<noteq> []
              \<and> \<not> (\<exists>entry \<in> set (IncludedProcesses c). glob_matches_ci (Name info) entry) then False
      else if \<exists>entry \<in> set (ExcludedUsers c). equals_ci (Username info) entry then False
      else True)"

subsection \<open>Snapshots\<close>

text \<open>A snapshot of the specification has one entry per process id, keyed by the id of
  its record, and every record passes the filter.\<close>

definition keys :: "snapshot \<Rightarrow> int32 set" where
  "keys S = fst ` set S"

definition well_formed :: "MonitoringConfig \<Rightarrow> snapshot \<Rightarrow> bool" where
  "well_formed c S \<longleftrightarrow>
     distinct (map fst S)
     \<and> list_all (\<lambda>(pid, info). PID info = pid \<and> ShouldMonitorProcess c info) S"

subsection \<open>Modification records\<close>

text \<open>A list of modification records holds one of a given kind.\<close>

definition has_mod :: "ModificationType \<Rightarrow> ProcessModification list \<Rightarrow> bool" where
  "has_mod ty mods = (\<exists>m \<in> set mods. ProcessModification.ModType m = ty)"

subsection \<open>The classes of a diff\<close>

text \<open>
  The process ids of the events of one kind, and the four classes of the specification
  read off the events of a diff: a created, terminated or modified process is one with
  an event of that kind; an unchanged process without modification is one of both
  snapshots with no \<open>ProcessModified\<close> event.
\<close>

definition event_pids :: "EventType \<Rightarrow> ProcessEvent list \<Rightarrow> int32 set" where
  "event_pids ty evs = set (map (\<lambda>e. PID (Process e)) (filter (\<lambda>e. Type e = ty) evs))"

definition unchanged_unmodified :: "snapshot \<Rightarrow> snapshot \<Rightarrow> ProcessEvent list \<Rightarrow> int32 set" where
  "unchanged_unmodified previous current evs =
     (keys previous \<inter> keys current) - event_pids ProcessModified evs"

subsection \<open>The diff without a filter\<close>

text \<open>
  The diff of the specification, which never asks the filter: a record of the current
  snapshot is compared field by field with the previous record of its process id, or
  reported as created when there is none; a record of the previous snapshot whose id is
  gone is reported as terminated.
\<close>

fun compare_current :: "MonitoringConfig \<Rightarrow> Time \<Rightarrow> snapshot \<Rightarrow> snapshot \<Rightarrow> ProcessEvent list" where
  "compare_current c now previous [] = []"
| "compare_current c now previous ((pid, info) # rest) =
     (case map_of previous pid of
        Some old \<Rightarrow> map (modified_event info) (fieldComparisons c now old info)
      | None \<Rightarrow> [created_event now info])
     @ compare_current c now previous rest"

fun report_gone :: "Time \<Rightarrow> snapshot \<Rightarrow> snapshot \<Rightarrow> ProcessEvent list" where
  "report_gone now current [] = []"
| "report_gone now current ((pid, info) # rest) =
     (if map_of current pid = None then [terminated_event now info] else [])
     @ report_gone now current rest"

definition unfiltered_diff ::
  "MonitoringConfig \<Rightarrow> Time \<Rightarrow> snapshot \<Rightarrow> snapshot \<Rightarrow> ProcessEvent list" where
  "unfiltered_diff c now previous current =
     compare_current c now previous current @ report_gone now current previous"

subsection \<open>Thresholds\<close>

text \<open>A ratio threshold of the specification is a number in the interval \<open>(0, 1]\<close>.\<close>

definition ratio_in_range :: "float64 \<Rightarrow> bool" where
  "ratio_in_range x = (\<exists>t. x = Finite t \<and> 0 < t \<and> t \<le> 1)"

section \<open>Example inputs\<close>

definition example_info :: "int32 \<Rightarrow> string \<Rightarrow> string \<Rightarrow> ProcessInfo" where
  "example_info pid name user =
     \<lparr> PID = pid, Name = name, CreateTime = 0, ParentPID = 0, Executable = [],
       CommandLine = [], Username = user, CPUPercent = Finite 0, MemoryUsage = 0,
       NumThreads = 0, Cwd = [], ThreadCount = 0, HandleCount = 0, MemoryRegions = [],
       Privileges = [], NetworkConns = [] \<rparr>"

text \<open>The default configuration, restricted to the processes whose name starts with
  \<open>nginx\<close>.\<close>

definition nginx_config :: MonitoringConfig where
  "nginx_config = DefaultConfig\<lparr>IncludedProcesses := [''nginx*'']\<rparr>"

definition nginx :: ProcessInfo where
  "nginx = example_info 7 ''nginx.exe'' ''www''"

text \<open>A handle whose accessors fail, except for the name.\<close>

definition denied_process :: Process where
  "denied_process =
     \<lparr> Pid = 4, Process.Name = Inr ''System'', Process.CreateTime = Inl ''access denied'',
       Ppid = Inl ''access denied'', Exe = Inl ''access denied'', Cmdline = Inl ''access denied'',
       Process.Username = Inl ''access denied'', Process.CPUPercent = Inl ''access denied'',
       Process.NumThreads = Inl ''access denied'', Process.Cwd = Inl ''access denied'',
       MemoryInfo = Inl ''access denied'' \<rparr>"

text \<open>Two states of \<open>nginx.exe\<close> whose thread counts differ by the default threshold,
  the second with memory in use where the first has none.\<close>

definition nginx_before :: ProcessInfo where
  "nginx_before = nginx\<lparr>ThreadCount := 5\<rparr>"

definition nginx_after :: ProcessInfo where
  "nginx_after = nginx\<lparr>ThreadCount := 7, MemoryUsage := 4096\<rparr>"

text \<open>The default configuration with a thread threshold of 0, and with a memory
  threshold that is not a number (\<open>.nan\<close> in a YAML document).\<close>

definition zero_threshold_config :: MonitoringConfig where
  "zero_threshold_config = DefaultConfig\<lparr>ThreadChangeThreshold := 0\<rparr>"

definition nan_config :: MonitoringConfig where
  "nan_config = DefaultConfig\<lparr>MemoryChangeThreshold := NaN\<rparr>"

text \<open>\<open>nginx.exe\<close> with another command line; an excluded process; two snapshots that
  share \<open>nginx.exe\<close>, each with one more process.\<close>

definition nginx_reloaded :: ProcessInfo where
  "nginx_reloaded = nginx\<lparr>CommandLine := ''nginx -s reload''\<rparr>"

definition svchost :: ProcessInfo where
  "svchost = example_info 9 ''svchost.exe'' ''SYSTEM''"

definition previous_snapshot :: snapshot where
  "previous_snapshot = [(7, nginx_before), (200, example_info 200 ''cron'' ''www'')]"

definition current_snapshot :: snapshot where
  "current_snapshot = [(9, example_info 9 ''bash'' ''www''), (7, nginx_after)]"

section \<open>Bounds on rounding\<close>

lemma floor_log2_eq: "0 < x \<Longrightarrow> floor_log2 x = \<lfloor>log 2 x\<rfloor>"
proof (induction x rule: floor_log2.induct)
  case (1 x)
  show ?case
  proof (cases "2 \<le> x")
    case True
    then have "log 2 (x / 2) = log 2 x - 1" by (simp add: log_divide)
    with 1 True show ?thesis by (subst floor_log2.simps) simp
  next
    case False
    show ?thesis
    proof (cases "x < 1")
      case True
      then have "log 2 (x * 2) = log 2 x + 1" using 1(3) by (simp add: log_mult)
      with 1 True False show ?thesis by (subst floor_log2.simps) simp
    next
      case nl: False
      have "0 \<le> log 2 x" "log 2 x < 1" using nl False 1(3) by (simp_all add: less_log_iff log_less_iff)
      then have "\<lfloor>log 2 x\<rfloor> = 0" by linarith
      with False nl 1(3) show ?thesis by (subst floor_log2.simps) simp
    qed
  qed
qed

lemma round_even_ge: "of_int n \<le> q \<Longrightarrow> n \<le> round_even q"
proof -
  assume "of_int n \<le> q"
  then have "n \<le> \<lfloor>q\<rfloor>" by (simp add: le_floor_iff)
  then show ?thesis by (simp add: round_even_def Let_def)
qed

lemma round_even_le: "q \<le> of_int n \<Longrightarrow> round_even q \<le> n"
proof -
  assume h: "q \<le> of_int n"
  show ?thesis
  proof (cases "q = of_int n")
    case True
    then show ?thesis by (simp add: round_even_def Let_def)
  next
    case False
    with h have "q < of_int n" by simp
    then have "\<lfloor>q\<rfloor> < n" by (simp add: floor_less_iff)
    then show ?thesis by (simp add: round_even_def Let_def)
  qed
qed

lemma floor_log2_bounds:
  assumes "0 < x"
  shows "2 powi (floor_log2 x) \<le> x" and "x < 2 powi (floor_log2 x + 1)"
proof -
  define L where "L = floor_log2 x"
  have "\<lfloor>log 2 x\<rfloor> = L" using assms by (simp add: floor_log2_eq L_def)
  then have b: "2 powr (of_int L) \<le> x \<and> x < 2 powr (of_int L + 1)"
    using floor_log_eq_powr_iff [of x 2 L] assms by simp
  have p: "2 powr (of_int L) = (2::real) powi L" by (simp add: powr_real_of_int')
  have "2 powr (of_int L + 1) = 2 powr (of_int L) * (2::real)" by (simp add: powr_add)
  also have "\<dots> = 2 powi L * 2" by (simp only: p)
  also have "\<dots> = 2 powi (L + 1)" by (simp add: power_int_add)
  finally have q: "2 powr (of_int L + 1) = (2::real) powi (L + 1)" .
  from b p show "2 powi (floor_log2 x) \<le> x" by (simp add: L_def)
  from b q show "x < 2 powi (floor_log2 x + 1)" by (simp add: L_def)
qed

lemma two_powi_le_D:
  assumes "(2::real) powi a \<le> 2 powi b"
  shows "a \<le> b"
proof (rule ccontr)
  assume "\<not> a \<le> b"
  then have "b < a" by simp
  then have "(2::real) powi b < 2 powi a"
    by (intro power_int_strict_increasing) simp_all
  with assms show False by simp
qed

lemma floor_log2_ge:
  assumes "0 < x" and "2 powi k \<le> x"
  shows "k \<le> floor_log2 x"
proof (rule ccontr)
  assume "\<not> k \<le> floor_log2 x"
  then have "floor_log2 x + 1 \<le> k" by simp
  then have "(2::real) powi (floor_log2 x + 1) \<le> 2 powi k"
    by (intro power_int_increasing) simp_all
  with floor_log2_bounds(2) [OF assms(1)] assms(2) show False by linarith
qed

lemma two_powi_nat: "0 \<le> k \<Longrightarrow> (2::real) powi k = of_int (2 ^ nat k)"
  by (simp add: power_int_def)

lemma two_pow_times_powi:
  assumes "e \<le> L"
  shows "(2::real) ^ nat (L - e) * 2 powi e = 2 powi L"
proof -
  have "(2::real) ^ nat (L - e) = 2 powi (L - e)" using assms by (simp add: power_int_def)
  then have "(2::real) ^ nat (L - e) * 2 powi e = 2 powi (L - e) * 2 powi e" by simp
  also have "\<dots> = 2 powi (L - e + e)" by (rule power_int_add [symmetric]) simp
  finally show ?thesis by simp
qed

lemma round_real_lower:
  assumes "0 < x" and "- 1074 \<le> k" and "2 powi k \<le> x"
  shows "2 powi k \<le> round_real x"
proof -
  define L where "L = floor_log2 x"
  define e where "e = quantum_exp x"
  have kL: "k \<le> L" unfolding L_def using assms(1,3) by (rule floor_log2_ge)
  have e_def': "e = max (L - 52) (- 1074)"
    using assms(1) by (simp add: e_def quantum_exp_def L_def)
  have eL: "e \<le> L" using kL assms(2) by (simp add: e_def')
  have pos: "(0::real) < 2 powi e" by simp
  have "2 powi L \<le> x" unfolding L_def using assms(1) by (rule floor_log2_bounds(1))
  then have "2 powi L / 2 powi e \<le> x / 2 powi e"
    using pos by (simp add: divide_right_mono)
  moreover have "(2::real) powi L / 2 powi e = 2 powi (L - e)"
    by (simp add: power_int_diff)
  moreover have "(2::real) powi (L - e) = of_int (2 ^ nat (L - e))"
    using eL by (simp add: two_powi_nat)
  ultimately have "of_int (2 ^ nat (L - e)) \<le> x / 2 powi e" by simp
  then have "2 ^ nat (L - e) \<le> round_even (x / 2 powi e)" by (rule round_even_ge)
  then have "(of_int (2 ^ nat (L - e)) :: real) \<le> of_int (round_even (x / 2 powi e))"
    by (simp only: of_int_le_iff)
  then have "(of_int (2 ^ nat (L - e)) :: real) * 2 powi e \<le> of_int (round_even (x / 2 powi e)) * 2 powi e"
    using pos by (simp add: mult_right_mono)
  moreover have "(of_int (2 ^ nat (L - e)) :: real) * 2 powi e = 2 powi L"
    using eL by (simp add: two_pow_times_powi)
  moreover have "round_real x = of_int (round_even (x / 2 powi e)) * 2 powi e"
    using assms(1) by (simp add: round_real_def e_def)
  moreover have "(2::real) powi k \<le> 2 powi L"
    using kL by (intro power_int_increasing) simp_all
  ultimately show ?thesis by linarith
qed

lemma round_real_upper:
  assumes "0 < x" and "- 1074 \<le> k" and "x \<le> 2 powi k"
  shows "round_real x \<le> 2 powi k"
proof -
  define L where "L = floor_log2 x"
  define e where "e = quantum_exp x"
  have "2 powi L \<le> x" unfolding L_def using assms(1) by (rule floor_log2_bounds(1))
  with assms(3) have "(2::real) powi L \<le> 2 powi k" by linarith
  then have Lk: "L \<le> k" by (rule two_powi_le_D)
  have e_def': "e = max (L - 52) (- 1074)"
    using assms(1) by (simp add: e_def quantum_exp_def L_def)
  have ek: "e \<le> k" using Lk assms(2) by (simp add: e_def')
  have pos: "(0::real) < 2 powi e" by simp
  have "x / 2 powi e \<le> 2 powi k / 2 powi e"
    using pos assms(3) by (simp add: divide_right_mono)
  moreover have "(2::real) powi k / 2 powi e = 2 powi (k - e)"
    by (simp add: power_int_diff)
  moreover have "(2::real) powi (k - e) = of_int (2 ^ nat (k - e))"
    using ek by (simp add: two_powi_nat)
  ultimately have "x / 2 powi e \<le> of_int (2 ^ nat (k - e))" by simp
  then have "round_even (x / 2 powi e) \<le> 2 ^ nat (k - e)" by (rule round_even_le)
  then have "(of_int (round_even (x / 2 powi e)) :: real) \<le> of_int (2 ^ nat (k - e))"
    by (simp only: of_int_le_iff)
  then have "(of_int (round_even (x / 2 powi e)) :: real) * 2 powi e \<le> of_int (2 ^ nat (k - e)) * 2 powi e"
    using pos by (simp add: mult_right_mono)
  moreover have "(of_int (2 ^ nat (k - e)) :: real) * 2 powi e = 2 powi k"
    using ek by (simp add: two_pow_times_powi)
  moreover have "round_real x = of_int (round_even (x / 2 powi e)) * 2 powi e"
    using assms(1) by (simp add: round_real_def e_def)
  ultimately show ?thesis by linarith
qed

lemma round_real_nonneg: "0 \<le> x \<Longrightarrow> 0 \<le> round_real x"
proof -
  assume "0 \<le> x"
  then have "0 \<le> x / 2 powi quantum_exp x" by simp
  then have "(0::int) \<le> round_even (x / 2 powi quantum_exp x)"
    using round_even_ge [of 0 "x / 2 powi quantum_exp x"] by simp
  then show ?thesis by (simp add: round_real_def)
qed

lemma round64_Finite:
  assumes "0 \<le> x" and "x \<le> 2 powi k" and "- 1074 \<le> k" and "k < 1024"
  shows "\<exists>r. round64 x = Finite r \<and> 0 \<le> r \<and> r \<le> 2 powi k \<and> round_real x = r"
proof (cases "x = 0")
  case True
  then show ?thesis by (simp add: round64_def round_real_def)
next
  case False
  with assms(1) have xpos: "0 < x" by simp
  have up: "round_real x \<le> 2 powi k" using xpos assms(3,2) by (rule round_real_upper)
  have nn: "0 \<le> round_real x" using assms(1) by (rule round_real_nonneg)
  have "\<not> (round_real x \<noteq> 0 \<and> 1024 \<le> floor_log2 \<bar>round_real x\<bar>)"
  proof
    assume h: "round_real x \<noteq> 0 \<and> 1024 \<le> floor_log2 \<bar>round_real x\<bar>"
    with nn have rp: "0 < round_real x" by simp
    have "2 powi (floor_log2 (round_real x)) \<le> round_real x"
      using rp by (rule floor_log2_bounds(1))
    moreover have "(2::real) powi 1024 \<le> 2 powi (floor_log2 (round_real x))"
      using h rp by (intro power_int_increasing) simp_all
    moreover have "(2::real) powi k < 2 powi 1024"
      using assms(4) by (intro power_int_strict_increasing) simp_all
    ultimately show False using up by linarith
  qed
  then have "round64 x = Finite (round_real x)" by (simp only: round64_def Let_def if_False)
  with up nn show ?thesis by simp
qed

lemma round64_one [simp]: "round64 1 = Finite 1"
proof -
  have "round_real 1 \<le> 2 powi 0" by (rule round_real_upper) simp_all
  moreover have "2 powi 0 \<le> round_real 1" by (rule round_real_lower) simp_all
  ultimately have "round_real 1 = 1" by simp
  moreover obtain r where "round64 1 = Finite r" "round_real 1 = r"
    using round64_Finite [of 1 0] by auto
  ultimately show ?thesis by simp
qed

text \<open>A handle all of whose accessors succeed, for a process with the given id, name
  and user; its record is \<open>example_info\<close> of them.\<close>

definition running :: "int32 \<Rightarrow> string \<Rightarrow> string \<Rightarrow> Process" where
  "running pid name user =
     \<lparr> Pid = pid, Process.Name = Inr name, Process.CreateTime = Inr 0, Ppid = Inr 0,
       Exe = Inr [], Cmdline = Inr [], Process.Username = Inr user,
       Process.CPUPercent = Inr (Finite 0), Process.NumThreads = Inr 0, Process.Cwd = Inr [],
       MemoryInfo = Inr (Some \<lparr> RSS = 0, VMS = 0 \<rparr>) \<rparr>"

text \<open>The handle of \<open>nginx.exe\<close> when the operating system reports \<open>n\<close> threads.\<close>

definition nginx_handle :: "int32 \<Rightarrow> Process" where
  "nginx_handle n = (running 7 ''nginx.exe'' ''www'')\<lparr>Process.NumThreads := Inr n\<rparr>"

section \<open>The filters\<close>

lemma name_excluded_iff:
  "name_excluded entries processName \<longleftrightarrow> (\<exists>e \<in> set entries. fst (Match (ToLower e) processName))"
  by (induction entries) auto

lemma name_included_iff:
  "name_included entries processName \<longleftrightarrow> (\<exists>e \<in> set entries. fst (Match (ToLower e) processName))"
  by (induction entries) auto

lemma user_excluded_iff:
  "user_excluded entries username \<longleftrightarrow> (\<exists>e \<in> set entries. ToLower e = username)"
  by (induction entries) auto

lemma nginx_passes_filter: "ShouldMonitorProcess nginx_config nginx"
  by code_simp

lemma nginx_fails_inline: "\<not> shouldMonitorProcess nginx_config nginx"
  by code_simp

text \<open>
  C7. \<open>ProcessFilter.ShouldMonitorProcess\<close>, the predicate that builds the snapshots and
  gates every event, decides by the specification's rules in their order: reject a name
  that glob-matches an excluded-process entry without regard to case; else reject when
  the included-process list is not empty and the name glob-matches none of its entries;
  else reject a user name equal, without regard to case, to an excluded-user entry; else
  accept. (The included-process entries are matched without regard to case as well.)
\<close>

theorem ShouldMonitorProcess_follows_rules:
  "ShouldMonitorProcess c info = spec_shouldMonitor c info"
  by (auto simp: ShouldMonitorProcess_def spec_shouldMonitor_def glob_matches_ci_def equals_ci_def
      name_excluded_iff name_included_iff user_excluded_iff Let_def)

theorem ShouldMonitorProcess_follows_rules_witness:
  "ShouldMonitorProcess nginx_config nginx = spec_shouldMonitor nginx_config nginx
   \<and> spec_shouldMonitor nginx_config nginx"
  using ShouldMonitorProcess_follows_rules [of nginx_config nginx] nginx_passes_filter
  by simp

text \<open>
  C9. The two predicates differ. With the included-process list \<open>nginx*\<close>, the process
  \<open>nginx.exe\<close> is accepted by \<open>ProcessFilter.ShouldMonitorProcess\<close>, which matches the
  entry as a pattern, and rejected by the collector's \<open>shouldMonitorProcess\<close>, which
  compares the entry with the name by \<open>EqualFold\<close>.
\<close>

theorem filters_disagree:
  "ShouldMonitorProcess nginx_config nginx \<and> \<not> shouldMonitorProcess nginx_config nginx"
  by code_simp

section \<open>The poll loop on a failed enumeration\<close>

text \<open>
  C6. When the enumeration of a tick fails, the tick sends no event and leaves the
  collector, with its retained snapshot, as it was; the loop goes on with the cases
  that follow exactly as if the tick had not fired.
\<close>

theorem enumeration_failure_aborts_tick:
  "tick c now (Inl err) pc = ([], pc)
   \<and> Monitor c (TickerC now (Inl err) # cases) pc = Monitor c cases pc"
  by (simp add: tick_def getRunningProcesses_def)

section \<open>Snapshots built by the collector\<close>

lemma map_of_map_store: "map_of (map_store m pid info) = (map_of m)(pid \<mapsto> info)"
  by (induction m pid info rule: map_store.induct) (auto simp: fun_eq_iff)

lemma keys_map_store: "keys (map_store m pid info) = insert pid (keys m)"
  by (induction m pid info rule: map_store.induct) (auto simp: keys_def)

lemma distinct_map_store: "distinct (map fst m) \<Longrightarrow> distinct (map fst (map_store m pid info))"
proof (induction m pid info rule: map_store.induct)
  case (1 pid info)
  then show ?case by simp
next
  case (2 k v m pid info)
  have "fst ` set (map_store m pid info) = insert pid (fst ` set m)"
    using keys_map_store [of m pid info] by (simp add: keys_def)
  with 2 show ?case by auto
qed

lemma set_map_store: "set (map_store m pid info) \<subseteq> insert (pid, info) (set m)"
  by (induction m pid info rule: map_store.induct) auto

lemma getProcessInfo_no_error: "snd (getProcessInfo p) = None"
  by (simp add: getProcessInfo_def Let_def split: sum.splits option.splits)

lemma getProcessInfo_PID: "PID (fst (getProcessInfo p)) = Pid p"
  by (simp add: getProcessInfo_def Let_def split: sum.splits option.splits)

lemma collect_Cons:
  "collect c (p # procs) processes =
     collect c procs (if ShouldMonitorProcess c (fst (getProcessInfo p))
                      then map_store processes (Pid p) (fst (getProcessInfo p)) else processes)"
  using getProcessInfo_no_error [of p] by (cases "getProcessInfo p") simp

lemma well_formed_map_store:
  assumes "well_formed c m" and "PID info = pid" and "ShouldMonitorProcess c info"
  shows "well_formed c (map_store m pid info)"
proof -
  have "\<forall>e \<in> set (map_store m pid info). (case e of (k, v) \<Rightarrow> PID v = k \<and> ShouldMonitorProcess c v)"
    using set_map_store [of m pid info] assms by (auto simp: well_formed_def list_all_iff)
  then show ?thesis
    using assms(1) by (simp add: well_formed_def distinct_map_store list_all_iff)
qed

lemma well_formed_collect: "well_formed c processes \<Longrightarrow> well_formed c (collect c procs processes)"
proof (induction procs arbitrary: processes)
  case Nil
  then show ?case by simp
next
  case (Cons p procs)
  show ?case
    unfolding collect_Cons
    using Cons.prems by (auto intro!: Cons.IH well_formed_map_store simp: getProcessInfo_PID)
qed

lemma getRunningProcesses_well_formed:
  "getRunningProcesses c enumeration = Inr S \<Longrightarrow> well_formed c S"
proof -
  have "well_formed c []" by (simp add: well_formed_def)
  then have "well_formed c (collect c procs [])" for procs by (rule well_formed_collect)
  moreover assume "getRunningProcesses c enumeration = Inr S"
  ultimately show ?thesis by (auto simp: getRunningProcesses_def split: sum.splits)
qed

lemma collect_keeps_keys:
  "map_of processes k = Some v \<Longrightarrow> \<exists>v'. map_of (collect c procs processes) k = Some v'"
proof (induction procs arbitrary: processes v)
  case Nil
  then show ?case by simp
next
  case (Cons p procs)
  let ?next = "if ShouldMonitorProcess c (fst (getProcessInfo p))
               then map_store processes (Pid p) (fst (getProcessInfo p)) else processes"
  have "\<exists>w. map_of ?next k = Some w"
    using Cons.prems by (simp add: map_of_map_store)
  then obtain w where "map_of ?next k = Some w" by blast
  from Cons.IH [OF this] show ?case
    unfolding collect_Cons .
qed

lemma collect_entry:
  "map_of (collect c procs processes) k = Some v \<Longrightarrow>
     (\<exists>q \<in> set procs. Pid q = k \<and> ShouldMonitorProcess c (fst (getProcessInfo q)) \<and> v = fst (getProcessInfo q))
     \<or> map_of processes k = Some v"
proof (induction procs arbitrary: processes)
  case Nil
  then show ?case by simp
next
  case (Cons p procs)
  from Cons.prems Cons.IH show ?case
    unfolding collect_Cons
    by (fastforce simp: map_of_map_store split: if_splits)
qed

text \<open>
  C10. \<open>getProcessInfo\<close> never returns an error, whatever the accessors of the handle
  return, so \<open>getRunningProcesses\<close> never skips a process for it: a process of the
  enumeration that passes the filter has its process id in the new snapshot, bound to the
  record of a process of that id that passes the filter, which is its own record when the
  ids of the enumeration are distinct.
\<close>

theorem getProcessInfo_never_fails:
  assumes "p \<in> set procs" and "ShouldMonitorProcess c (fst (getProcessInfo p))"
  shows "snd (getProcessInfo p) = None
         \<and> (\<exists>snap. getRunningProcesses c (Inr procs) = Inr snap
              \<and> (\<exists>q \<in> set procs. Pid q = Pid p \<and> ShouldMonitorProcess c (fst (getProcessInfo q))
                    \<and> map_of snap (Pid p) = Some (fst (getProcessInfo q)))
              \<and> (distinct (map Pid procs) \<longrightarrow> map_of snap (Pid p) = Some (fst (getProcessInfo p))))"
proof -
  have in_snapshot: "\<exists>v. map_of (collect c procs processes) (Pid p) = Some v" for processes
    using assms
  proof (induction procs arbitrary: processes)
    case Nil
    then show ?case by simp
  next
    case (Cons a procs)
    show ?case
    proof (cases "a = p")
      case True
      have "map_of (map_store processes (Pid p) (fst (getProcessInfo p))) (Pid p) = Some (fst (getProcessInfo p))"
        by (simp add: map_of_map_store)
      from collect_keeps_keys [OF this] show ?thesis
        unfolding collect_Cons using True Cons.prems(2) by simp
    next
      case False
      with Cons.prems have "p \<in> set procs" by simp
      from Cons.IH [OF this Cons.prems(2)] show ?thesis
        unfolding collect_Cons by simp
    qed
  qed
  then obtain v where v: "map_of (collect c procs []) (Pid p) = Some v" by blast
  from collect_entry [OF v] obtain q where q: "q \<in> set procs" "Pid q = Pid p"
      "ShouldMonitorProcess c (fst (getProcessInfo q))" "v = fst (getProcessInfo q)"
    by auto
  have "distinct (map Pid procs) \<longrightarrow> q = p"
    using q(1,2) assms(1) by (auto simp: distinct_map dest: inj_onD)
  with v q show ?thesis
    by (auto simp: getProcessInfo_no_error getRunningProcesses_def)
qed

theorem getProcessInfo_never_fails_witness:
  "snd (getProcessInfo denied_process) = None
   \<and> map_of (collect DefaultConfig [denied_process] []) 4 = Some (fst (getProcessInfo denied_process))"
proof -
  have "ShouldMonitorProcess DefaultConfig (fst (getProcessInfo denied_process))"
    by code_simp
  then show ?thesis
    using getProcessInfo_never_fails [of denied_process "[denied_process]" DefaultConfig]
    by (simp add: getRunningProcesses_def denied_process_def)
qed

section \<open>The thread threshold\<close>

lemma sint_minus_in_range:
  fixes a b :: int32
  assumes "\<bar>sint a - sint b\<bar> < 2 ^ 31"
  shows "sint (a - b) = sint a - sint b"
proof -
  have "sint (a - b) = signed_take_bit 31 (sint a - sint b)"
    by (simp add: sint_word_ariths)
  also have "\<dots> = sint a - sint b"
    using assms by (intro signed_take_bit_int_eq_self) auto
  finally show ?thesis .
qed

lemma sint_abs_int32:
  fixes a b :: int32
  assumes "\<bar>sint a - sint b\<bar> < 2 ^ 31"
  shows "sint (abs_int32 (a - b)) = \<bar>sint a - sint b\<bar>"
proof -
  have d: "sint (a - b) = sint a - sint b" using assms by (rule sint_minus_in_range)
  show ?thesis
  proof (cases "a - b <s 0")
    case True
    then have neg: "sint a - sint b < 0" using d by (simp add: word_sless_alt)
    have "sint (b - a) = sint b - sint a"
      using assms by (intro sint_minus_in_range) simp
    then show ?thesis using True neg by (simp add: abs_int32_def)
  next
    case False
    then have "0 \<le> sint a - sint b" using d by (simp add: word_sless_alt)
    with False d show ?thesis by (simp add: abs_int32_def)
  qed
qed

lemma abs_int32_same [simp]: "abs_int32 (a - a) = 0"
  by (simp add: abs_int32_def)

lemma has_mod_thread:
  "has_mod ThreadCountChange (fieldComparisons c now old new) \<longleftrightarrow>
     MonitorThreads c \<and> ThreadChangeThreshold c \<le>s abs_int32 (ThreadCount new - ThreadCount old)"
  by (auto simp: has_mod_def fieldComparisons_def Let_def)

lemma has_mod_memory:
  "has_mod MemoryModification (fieldComparisons c now old new) \<longleftrightarrow>
     MonitorMemory c \<and>
     (f64_lt (f64_div (float64_of_uint64 (MemoryUsage new)) (float64_of_uint64 (MemoryUsage old)))
             (f64_sub (Finite 1) (MemoryChangeThreshold c))
      \<or> f64_gt (f64_div (float64_of_uint64 (MemoryUsage new)) (float64_of_uint64 (MemoryUsage old)))
             (f64_add (Finite 1) (MemoryChangeThreshold c)))"
  by (auto simp: has_mod_def fieldComparisons_def Let_def)

text \<open>
  The comparison itself has the boundary of the specification on the fields it reads:
  for a record that the collector's own predicate accepts, with thread monitoring
  enabled and a threshold of at least 1, a difference of the \<open>ThreadCount\<close> fields equal
  to the threshold yields a \<open>ThreadCountChange\<close> record and a difference of one less
  yields none.
\<close>

lemma thread_comparison_boundary:
  assumes "MonitorThreads c" and "shouldMonitorProcess c new"
    and "1 \<le> sint (ThreadChangeThreshold c)"
  shows "(\<bar>sint (ThreadCount new) - sint (ThreadCount old)\<bar> = sint (ThreadChangeThreshold c)
            \<longrightarrow> has_mod ThreadCountChange (detectModifications c now old new))
       \<and> (\<bar>sint (ThreadCount new) - sint (ThreadCount old)\<bar> = sint (ThreadChangeThreshold c) - 1
            \<longrightarrow> \<not> has_mod ThreadCountChange (detectModifications c now old new))"
proof -
  have lt: "sint (ThreadChangeThreshold c) < 2 ^ 31"
    using sint_lt [of "ThreadChangeThreshold c"] by simp
  have dm: "detectModifications c now old new = fieldComparisons c now old new"
    using assms(2) by (simp add: detectModifications_def)
  {
    assume eq: "\<bar>sint (ThreadCount new) - sint (ThreadCount old)\<bar> = sint (ThreadChangeThreshold c)"
    then have "sint (abs_int32 (ThreadCount new - ThreadCount old)) = sint (ThreadChangeThreshold c)"
      using lt sint_abs_int32 [of "ThreadCount new" "ThreadCount old"] by simp
    then have "has_mod ThreadCountChange (detectModifications c now old new)"
      using assms(1) by (simp add: dm has_mod_thread word_sle_eq)
  }
  moreover
  {
    assume eq: "\<bar>sint (ThreadCount new) - sint (ThreadCount old)\<bar> = sint (ThreadChangeThreshold c) - 1"
    then have "sint (abs_int32 (ThreadCount new - ThreadCount old)) = sint (ThreadChangeThreshold c) - 1"
      using lt sint_abs_int32 [of "ThreadCount new" "ThreadCount old"] by simp
    then have "\<not> has_mod ThreadCountChange (detectModifications c now old new)"
      by (simp add: dm has_mod_thread word_sle_eq)
  }
  ultimately show ?thesis by blast
qed

text \<open>
  But \<open>getProcessInfo\<close> stores the thread count of the operating system in \<open>NumThreads\<close>
  and leaves \<open>ThreadCount\<close>, the field that \<open>detectModifications\<close> compares, at zero. So
  between two snapshots that the collector builds no thread-count change is ever
  reported under a threshold of at least 1.
\<close>

lemma getProcessInfo_counts:
  "ThreadCount (fst (getProcessInfo p)) = 0" "HandleCount (fst (getProcessInfo p)) = 0"
  by (simp_all add: getProcessInfo_def Let_def split: sum.splits option.splits)

lemma map_store_counts:
  assumes "list_all (\<lambda>(pid, info). ThreadCount info = 0) m" and "ThreadCount info = 0"
  shows "list_all (\<lambda>(pid, info). ThreadCount info = 0) (map_store m pid info)"
  using set_map_store [of m pid info] assms by (auto simp: list_all_iff)

lemma collect_counts:
  "list_all (\<lambda>(pid, info). ThreadCount info = 0) processes \<Longrightarrow>
   list_all (\<lambda>(pid, info). ThreadCount info = 0) (collect c procs processes)"
proof (induction procs arbitrary: processes)
  case Nil
  then show ?case by simp
next
  case (Cons p procs)
  show ?case
    unfolding collect_Cons
    using Cons.prems by (auto intro!: Cons.IH map_store_counts simp: getProcessInfo_counts)
qed

lemma getRunningProcesses_counts:
  assumes "getRunningProcesses c enumeration = Inr S"
  shows "list_all (\<lambda>(pid, info). ThreadCount info = 0) S"
proof -
  have "list_all (\<lambda>(pid, info). ThreadCount info = 0) (collect c procs [])" for procs
    by (rule collect_counts) simp
  with assms show ?thesis by (auto simp: getRunningProcesses_def split: sum.splits)
qed

lemma no_thread_change_without_count:
  assumes "ThreadCount old = 0" and "ThreadCount new = 0" and "1 \<le> sint (ThreadChangeThreshold c)"
  shows "\<not> has_mod ThreadCountChange (detectModifications c now old new)"
proof (cases "shouldMonitorProcess c new")
  case True
  then show ?thesis
    using assms by (simp add: detectModifications_def has_mod_thread word_sle_eq abs_int32_def)
next
  case False
  then show ?thesis by (simp add: detectModifications_def has_mod_def)
qed

lemma check_new_no_thread_change:
  assumes "list_all (\<lambda>(pid, info). ThreadCount info = 0) previous"
    and "list_all (\<lambda>(pid, info). ThreadCount info = 0) rest"
    and "1 \<le> sint (ThreadChangeThreshold c)"
  shows "list_all (\<lambda>e. ModType e \<noteq> ThreadCountChange) (check_new c now previous rest)"
  using assms(2)
proof (induction rest)
  case Nil
  then show ?case by simp
next
  case (Cons e rest)
  obtain pid info where e: "e = (pid, info)" by (cases e)
  from Cons.prems e have n: "ThreadCount info = 0"
    and r: "list_all (\<lambda>(pid, info). ThreadCount info = 0) rest" by simp_all
  have "list_all (\<lambda>e. ModType e \<noteq> ThreadCountChange)
          (map (modified_event info) (detectModifications c now old info))"
    if "map_of previous pid = Some old" for old
  proof -
    from that have "(pid, old) \<in> set previous" by (rule map_of_SomeD)
    with assms(1) have "ThreadCount old = 0" by (auto simp: list_all_iff)
    from no_thread_change_without_count [OF this n assms(3), of now]
    show ?thesis by (auto simp: has_mod_def list_all_iff modified_event_def)
  qed
  with Cons.IH [OF r] show ?case
    by (auto simp: e created_event_def split: option.splits)
qed

lemma check_terminated_no_thread_change:
  "list_all (\<lambda>e. ModType e \<noteq> ThreadCountChange) (check_terminated c now current rest)"
  by (induction rest) (auto simp: terminated_event_def)

lemma no_thread_change_between_built_snapshots:
  assumes "getRunningProcesses c first = Inr previous"
    and "getRunningProcesses c second = Inr current"
    and "1 \<le> sint (ThreadChangeThreshold c)"
  shows "list_all (\<lambda>e. ModType e \<noteq> ThreadCountChange) (diff_events c now previous current)"
  using check_new_no_thread_change [OF getRunningProcesses_counts [OF assms(1)]
      getRunningProcesses_counts [OF assms(2)] assms(3)]
    check_terminated_no_thread_change
  by (simp add: diff_events_def)

text \<open>
  C5. The code does not do what the claim says. Under the default configuration (thread
  monitoring enabled, threshold 2) the thread count of \<open>nginx.exe\<close>, a process that both
  predicates accept, goes from 5 to 7 between two ticks, a change equal to the threshold.
  The two ticks send the creation event of the first tick and nothing else: no
  \<open>ThreadCountChange\<close>, the \<open>ThreadCount\<close> field of both records being zero.
\<close>

theorem thread_change_not_reported:
  "MonitorThreads DefaultConfig \<and> ThreadChangeThreshold DefaultConfig = 2
   \<and> Process.NumThreads (nginx_handle 5) = Inr 5 \<and> Process.NumThreads (nginx_handle 7) = Inr 7
   \<and> ShouldMonitorProcess DefaultConfig (fst (getProcessInfo (nginx_handle 7)))
   \<and> shouldMonitorProcess DefaultConfig (fst (getProcessInfo (nginx_handle 7)))
   \<and> NumThreads (fst (getProcessInfo (nginx_handle 5))) = 5
   \<and> NumThreads (fst (getProcessInfo (nginx_handle 7))) = 7
   \<and> ThreadCount (fst (getProcessInfo (nginx_handle 5))) = 0
   \<and> ThreadCount (fst (getProcessInfo (nginx_handle 7))) = 0
   \<and> Monitor DefaultConfig [TickerC 0 (Inr [nginx_handle 5]), TickerC 1 (Inr [nginx_handle 7])]
        NewProcessCollector
       = (False, [created_event 0 (fst (getProcessInfo (nginx_handle 5)))],
          \<lparr> currentProcesses = [(7, fst (getProcessInfo (nginx_handle 7)))] \<rparr>)"
  by code_simp

section \<open>Memory comparison and equal snapshots\<close>

lemma float64_of_uint64_Finite:
  "\<exists>r. float64_of_uint64 w = Finite r \<and> 0 \<le> r \<and> (w = 0 \<longrightarrow> r = 0) \<and> (w \<noteq> 0 \<longrightarrow> 1 \<le> r)"
proof -
  define x :: real where "x = of_int (uint w)"
  have "0 \<le> uint w" by simp
  then have x0: "0 \<le> x" unfolding x_def by (simp only: of_int_0_le_iff)
  have "uint w < 2 ^ 64" using uint_bounded [of w] by simp
  then have "x < of_int (2 ^ 64)" unfolding x_def by (simp only: of_int_less_iff)
  then have xu: "x \<le> 2 powi 64" by simp
  from round64_Finite [OF x0 xu] obtain r where r: "round64 x = Finite r" "0 \<le> r" "round_real x = r"
    by auto
  have "w = 0 \<longrightarrow> r = 0" using r(3) by (auto simp: x_def round_real_def)
  moreover have "w \<noteq> 0 \<longrightarrow> 1 \<le> r"
  proof
    assume "w \<noteq> 0"
    then have "uint w \<noteq> 0" by (simp add: uint_0_iff)
    then have "1 \<le> uint w" using uint_ge_0 [of w] by linarith
    then have "(of_int 1 :: real) \<le> of_int (uint w)" by (simp only: of_int_le_iff)
    then have "1 \<le> x" unfolding x_def by simp
    then have "2 powi 0 \<le> round_real x" by (intro round_real_lower) simp_all
    with r(3) show "1 \<le> r" by simp
  qed
  ultimately show ?thesis using r by (auto simp: float64_of_uint64_def x_def)
qed

lemma one_plus_threshold:
  assumes "0 \<le> t" and "t \<le> 1"
  shows "\<exists>u. f64_add (Finite 1) (Finite t) = Finite u \<and> 1 \<le> u"
proof -
  have "1 + t \<le> 2 powi 1" using assms by simp
  from round64_Finite [OF _ this] assms obtain u where u: "round64 (1 + t) = Finite u" "round_real (1 + t) = u"
    by auto
  have "2 powi 0 \<le> round_real (1 + t)" using assms by (intro round_real_lower) simp_all
  with u show ?thesis by simp
qed

lemma one_minus_threshold:
  assumes "0 \<le> t" and "t \<le> 1"
  shows "\<exists>s. f64_sub (Finite 1) (Finite t) = Finite s \<and> s \<le> 1"
proof -
  have "0 \<le> 1 - t" "1 - t \<le> 2 powi 0" using assms by simp_all
  from round64_Finite [OF this] obtain s where "round64 (1 - t) = Finite s" "s \<le> 2 powi 0"
    by auto
  then show ?thesis by (simp add: f64_sub_def)
qed

lemma Validate_thresholds:
  assumes "Validate c = None"
  shows "MemoryChangeThreshold c = NaN \<or> (\<exists>t. MemoryChangeThreshold c = Finite t \<and> 0 < t \<and> t \<le> 1)"
    and "0 \<le> sint (ThreadChangeThreshold c)" and "0 \<le> sint (HandleChangeThreshold c)"
proof -
  from assms have m: "\<not> f64_le (MemoryChangeThreshold c) (Finite 0)" "\<not> f64_gt (MemoryChangeThreshold c) (Finite 1)"
    and t: "\<not> ThreadChangeThreshold c <s 0" and h: "\<not> HandleChangeThreshold c <s 0"
    by (auto simp: Validate_def split: if_splits)
  from m show "MemoryChangeThreshold c = NaN \<or> (\<exists>t. MemoryChangeThreshold c = Finite t \<and> 0 < t \<and> t \<le> 1)"
    by (cases "MemoryChangeThreshold c") (auto simp: f64_gt_def)
  from t show "0 \<le> sint (ThreadChangeThreshold c)" by (simp add: word_sless_alt)
  from h show "0 \<le> sint (HandleChangeThreshold c)" by (simp add: word_sless_alt)
qed

lemma memory_unchanged_not_flagged:
  assumes "thr = NaN \<or> (\<exists>t. thr = Finite t \<and> 0 < t \<and> t \<le> 1)"
  shows "\<not> f64_lt (f64_div (float64_of_uint64 w) (float64_of_uint64 w)) (f64_sub (Finite 1) thr)"
    and "\<not> f64_gt (f64_div (float64_of_uint64 w) (float64_of_uint64 w)) (f64_add (Finite 1) thr)"
proof -
  obtain r where r: "float64_of_uint64 w = Finite r" using float64_of_uint64_Finite by blast
  have q: "f64_div (Finite r) (Finite r) = NaN \<or> f64_div (Finite r) (Finite r) = Finite 1"
    by simp
  from assms show "\<not> f64_lt (f64_div (float64_of_uint64 w) (float64_of_uint64 w)) (f64_sub (Finite 1) thr)"
  proof
    assume "thr = NaN"
    then show ?thesis using q r by (auto simp: f64_sub_def)
  next
    assume "\<exists>t. thr = Finite t \<and> 0 < t \<and> t \<le> 1"
    then obtain t where t: "thr = Finite t" "0 < t" "t \<le> 1" by blast
    from one_minus_threshold [of t] t obtain s where "f64_sub (Finite 1) (Finite t) = Finite s" "s \<le> 1"
      by auto
    then show ?thesis using q r t(1) by auto
  qed
  from assms show "\<not> f64_gt (f64_div (float64_of_uint64 w) (float64_of_uint64 w)) (f64_add (Finite 1) thr)"
  proof
    assume "thr = NaN"
    then show ?thesis using q r by (auto simp: f64_gt_def)
  next
    assume "\<exists>t. thr = Finite t \<and> 0 < t \<and> t \<le> 1"
    then obtain t where t: "thr = Finite t" "0 < t" "t \<le> 1" by blast
    from one_plus_threshold [of t] t obtain u where "f64_add (Finite 1) (Finite t) = Finite u" "1 \<le> u"
      by auto
    then show ?thesis using q r t(1) by (auto simp: f64_gt_def)
  qed
qed

lemma fieldComparisons_same:
  assumes "Validate c = None"
    and "MonitorThreads c \<longrightarrow> 1 \<le> sint (ThreadChangeThreshold c)"
    and "MonitorHandles c \<longrightarrow> 1 \<le> sint (HandleChangeThreshold c)"
  shows "fieldComparisons c now info info = []"
proof -
  note m = memory_unchanged_not_flagged [OF Validate_thresholds(1) [OF assms(1)], of "MemoryUsage info"]
  show ?thesis
    using assms(2,3) m by (auto simp: fieldComparisons_def word_sle_eq Let_def abs_int32_def)
qed

lemma check_new_retained:
  assumes "\<And>info. detectModifications c now info info = []"
    and "\<forall>(pid, info) \<in> set rest. map_of S pid = Some info"
  shows "check_new c now S rest = []"
  using assms(2) by (induction rest) (auto simp: assms(1))

lemma check_terminated_retained:
  assumes "\<forall>(pid, info) \<in> set rest. map_of S pid \<noteq> None"
  shows "check_terminated c now S rest = []"
  using assms by (induction rest) auto

text \<open>
  C1 (amended). For a configuration that \<open>Validate\<close> accepts and whose thread and handle
  thresholds are at least 1 wherever those detectors are enabled, comparing a snapshot
  with itself sends no event: nothing created, nothing terminated, and an empty
  modification list for every process; a tick whose new snapshot is the retained one
  sends nothing and leaves the collector as it was.
\<close>

theorem diff_of_equal_snapshots:
  assumes "Validate c = None"
    and "MonitorThreads c \<longrightarrow> 1 \<le> sint (ThreadChangeThreshold c)"
    and "MonitorHandles c \<longrightarrow> 1 \<le> sint (HandleChangeThreshold c)"
    and "distinct (map fst S)"
  shows "diff_events c now S S = []
         \<and> (\<forall>(pid, info) \<in> set S. detectModifications c now info info = [])
         \<and> (getRunningProcesses c enumeration = Inr (currentProcesses pc)
              \<and> currentProcesses pc = S \<longrightarrow> tick c now enumeration pc = ([], pc))"
proof -
  have dm: "detectModifications c now info info = []" for info
    using fieldComparisons_same [OF assms(1,2,3)] by (simp add: detectModifications_def)
  have look: "\<forall>(pid, info) \<in> set S. map_of S pid = Some info"
    using assms(4) by auto
  then have "\<forall>(pid, info) \<in> set S. map_of S pid \<noteq> None" by auto
  then have "check_terminated c now S S = []" by (rule check_terminated_retained)
  moreover have "check_new c now S S = []" using dm look by (rule check_new_retained)
  ultimately have "diff_events c now S S = []" by (simp add: diff_events_def)
  then show ?thesis using dm by (auto simp: tick_def)
qed

theorem diff_of_equal_snapshots_witness:
  "diff_events DefaultConfig 0 [(7, nginx_after)] [(7, nginx_after)] = []
   \<and> detectModifications DefaultConfig 0 nginx_after nginx_after = []"
proof -
  have "Validate DefaultConfig = None"
    and "1 \<le> sint (ThreadChangeThreshold DefaultConfig)"
    and "1 \<le> sint (HandleChangeThreshold DefaultConfig)"
    by code_simp+
  then show ?thesis
    using diff_of_equal_snapshots [of DefaultConfig "[(7, nginx_after)]" 0]
    by simp
qed

text \<open>
  C1, as stated, fails: \<open>Validate\<close> accepts a thread threshold of 0, and then every
  process of a snapshot compared with itself yields a \<open>ThreadCountChange\<close> event, the
  change of 0 being at least the threshold.
\<close>

theorem diff_of_equal_snapshots_counterexample:
  "Validate zero_threshold_config = None
   \<and> diff_events zero_threshold_config 0 [(7, nginx_after)] [(7, nginx_after)] =
       [\<lparr> Type = ProcessModified, Timestamp = 0, Process = nginx_after,
          ModType = ThreadCountChange, Description = ''Thread count changed by 0'' \<rparr>]"
  by code_simp

text \<open>
  C2 (amended). With memory monitoring enabled, a new record that the collector's own
  predicate accepts, a memory threshold between 0 and 1, an old memory usage of 0 and a
  new one above 0, \<open>detectModifications\<close> yields a \<open>MemoryModification\<close> record. The case
  is not treated apart: the divisor of the ratio is 0 and the binary64 division yields
  the positive infinity, which is above 1 plus the threshold.
\<close>

theorem memory_zero_old_usage:
  assumes "MonitorMemory c" and "shouldMonitorProcess c new"
    and "MemoryUsage old = 0" and "MemoryUsage new \<noteq> 0"
    and "MemoryChangeThreshold c = Finite t" and "0 \<le> t" and "t \<le> 1"
  shows "has_mod MemoryModification (detectModifications c now old new)
         \<and> float64_of_uint64 (MemoryUsage old) = Finite 0
         \<and> f64_div (float64_of_uint64 (MemoryUsage new)) (float64_of_uint64 (MemoryUsage old)) = PosInf"
proof -
  obtain r where r: "float64_of_uint64 (MemoryUsage new) = Finite r" "1 \<le> r"
    using float64_of_uint64_Finite [of "MemoryUsage new"] assms(4) by auto
  have z: "float64_of_uint64 (MemoryUsage old) = Finite 0"
    using float64_of_uint64_Finite [of "MemoryUsage old"] assms(3) by auto
  have d: "f64_div (float64_of_uint64 (MemoryUsage new)) (float64_of_uint64 (MemoryUsage old)) = PosInf"
    using r z by simp
  obtain u where "f64_add (Finite 1) (Finite t) = Finite u"
    using one_plus_threshold [OF assms(6,7)] by blast
  then have "f64_gt PosInf (f64_add (Finite 1) (MemoryChangeThreshold c))"
    by (simp add: assms(5) f64_gt_def)
  then have "has_mod MemoryModification (detectModifications c now old new)"
    using assms(1,2) d by (simp add: detectModifications_def has_mod_memory)
  with z d show ?thesis by simp
qed

theorem memory_zero_old_usage_witness:
  "has_mod MemoryModification (detectModifications DefaultConfig 0 nginx_before nginx_after)
   \<and> float64_of_uint64 (MemoryUsage nginx_before) = Finite 0
   \<and> f64_div (float64_of_uint64 (MemoryUsage nginx_after)) (float64_of_uint64 (MemoryUsage nginx_before)) = PosInf"
proof -
  have "MonitorMemory DefaultConfig" and "shouldMonitorProcess DefaultConfig nginx_after"
    and "MemoryUsage nginx_before = 0" and "MemoryUsage nginx_after \<noteq> 0"
    and "MemoryChangeThreshold DefaultConfig = Finite (3602879701896397 / 36028797018963968)"
    by code_simp+
  moreover have "(0::real) \<le> 3602879701896397 / 36028797018963968"
    and "(3602879701896397::real) / 36028797018963968 \<le> 1"
    by simp_all
  ultimately show ?thesis
    by (rule memory_zero_old_usage)
qed

text \<open>
  C2, as stated, fails. The quotient is computed with the divisor 0. With a memory
  threshold that is not a number, which \<open>Validate\<close> accepts, no \<open>MemoryModification\<close>
  record is produced. And no record at all is produced for \<open>nginx.exe\<close> under the
  included-process list \<open>nginx*\<close>, although the process is in the snapshots.
\<close>

theorem memory_zero_old_usage_counterexample:
  "MemoryUsage nginx_before = 0 \<and> MemoryUsage nginx_after = 4096
   \<and> float64_of_uint64 (MemoryUsage nginx_before) = Finite 0
   \<and> f64_div (float64_of_uint64 (MemoryUsage nginx_after)) (float64_of_uint64 (MemoryUsage nginx_before)) = PosInf
   \<and> MonitorMemory nan_config \<and> Validate nan_config = None
   \<and> shouldMonitorProcess nan_config nginx_after
   \<and> \<not> has_mod MemoryModification (detectModifications nan_config 0 nginx_before nginx_after)
   \<and> MonitorMemory nginx_config \<and> ShouldMonitorProcess nginx_config nginx_after
   \<and> detectModifications nginx_config 0 nginx_before nginx_after = []"
  by code_simp

section \<open>The classes of a diff\<close>

lemma map_of_None_keys: "map_of S pid = None \<longleftrightarrow> pid \<notin> keys S"
  by (simp add: map_of_eq_None_iff keys_def)

lemma event_pids_Nil [simp]: "event_pids ty [] = {}"
  by (simp add: event_pids_def)

lemma event_pids_append [simp]: "event_pids ty (a @ b) = event_pids ty a \<union> event_pids ty b"
  by (simp add: event_pids_def)

lemma event_pids_Cons [simp]:
  "event_pids ty (e # evs) = (if Type e = ty then {PID (Process e)} else {}) \<union> event_pids ty evs"
  by (auto simp: event_pids_def)

lemma created_event_sel [simp]:
  "Type (created_event now info) = ProcessCreated" "Process (created_event now info) = info"
  by (simp_all add: created_event_def)

lemma terminated_event_sel [simp]:
  "Type (terminated_event now info) = ProcessTerminated" "Process (terminated_event now info) = info"
  by (simp_all add: terminated_event_def)

lemma event_pids_modified [simp]:
  "event_pids ty (map (modified_event info) mods) =
     (if ty = ProcessModified \<and> mods \<noteq> [] then {PID info} else {})"
  by (induction mods) (auto simp: modified_event_def)

lemma keys_Cons [simp]: "keys ((pid, info) # rest) = insert pid (keys rest)"
  by (simp add: keys_def)

lemma keys_Nil [simp]: "keys [] = {}"
  by (simp add: keys_def)

lemma check_new_created:
  assumes "list_all (\<lambda>(pid, info). PID info = pid \<and> ShouldMonitorProcess c info) rest"
  shows "event_pids ProcessCreated (check_new c now previous rest) = keys rest - keys previous"
  using assms
proof (induction rest)
  case Nil
  then show ?case by simp
next
  case (Cons e rest)
  obtain pid info where e: "e = (pid, info)" by (cases e)
  from Cons.prems e have p: "PID info = pid" "ShouldMonitorProcess c info"
    and r: "list_all (\<lambda>(pid, info). PID info = pid \<and> ShouldMonitorProcess c info) rest"
    by simp_all
  show ?case
  proof (cases "map_of previous pid")
    case None
    then have "pid \<notin> keys previous" by (simp add: map_of_None_keys)
    with None p Cons.IH [OF r] show ?thesis by (auto simp: e)
  next
    case (Some old)
    then have "pid \<in> keys previous" using map_of_None_keys [of previous pid] by simp
    with Some p Cons.IH [OF r] show ?thesis by (auto simp: e)
  qed
qed

lemma check_new_terminated: "event_pids ProcessTerminated (check_new c now previous rest) = {}"
  by (induction rest) (auto split: option.splits if_splits)

lemma check_new_modified:
  assumes "list_all (\<lambda>(pid, info). PID info = pid \<and> ShouldMonitorProcess c info) rest"
  shows "event_pids ProcessModified (check_new c now previous rest) \<subseteq> keys rest \<inter> keys previous"
  using assms
proof (induction rest)
  case Nil
  then show ?case by simp
next
  case (Cons e rest)
  obtain pid info where e: "e = (pid, info)" by (cases e)
  from Cons.prems e have p: "PID info = pid"
    and r: "list_all (\<lambda>(pid, info). PID info = pid \<and> ShouldMonitorProcess c info) rest"
    by simp_all
  show ?case
  proof (cases "map_of previous pid")
    case None
    with Cons.IH [OF r] show ?thesis by (auto simp: e)
  next
    case (Some old)
    then have "pid \<in> keys previous" using map_of_None_keys [of previous pid] by simp
    with Some p Cons.IH [OF r] show ?thesis by (auto simp: e split: if_splits)
  qed
qed

lemma check_terminated_terminated:
  assumes "list_all (\<lambda>(pid, info). PID info = pid \<and> ShouldMonitorProcess c info) rest"
  shows "event_pids ProcessTerminated (check_terminated c now current rest) = keys rest - keys current"
  using assms
proof (induction rest)
  case Nil
  then show ?case by simp
next
  case (Cons e rest)
  obtain pid info where e: "e = (pid, info)" by (cases e)
  from Cons.prems e have p: "PID info = pid" "ShouldMonitorProcess c info"
    and r: "list_all (\<lambda>(pid, info). PID info = pid \<and> ShouldMonitorProcess c info) rest"
    by simp_all
  show ?case
    using p Cons.IH [OF r] map_of_None_keys [of current pid] by (auto simp: e)
qed

lemma check_terminated_others:
  "ty \<noteq> ProcessTerminated \<Longrightarrow> event_pids ty (check_terminated c now current rest) = {}"
  by (induction rest) (auto split: if_splits)

text \<open>
  C4. For two snapshots of the specification (one entry per process id, keyed by the id
  of the record, every record passing the filter), the events of a diff put every process
  id of either snapshot in exactly one class: created are the ids of the current snapshot
  only, terminated those of the previous snapshot only, and the ids of both are either
  modified or unchanged without modification; the four classes are pairwise disjoint and
  their union is the union of the two key sets.
\<close>

theorem diff_classes_partition:
  assumes "well_formed c previous" and "well_formed c current"
  shows "let evs = diff_events c now previous current;
             created = event_pids ProcessCreated evs;
             terminated = event_pids ProcessTerminated evs;
             modified = event_pids ProcessModified evs;
             unmodified = unchanged_unmodified previous current evs
         in created = keys current - keys previous
            \<and> terminated = keys previous - keys current
            \<and> modified \<subseteq> keys previous \<inter> keys current
            \<and> unmodified \<subseteq> keys previous \<inter> keys current
            \<and> created \<inter> terminated = {} \<and> created \<inter> unmodified = {} \<and> created \<inter> modified = {}
            \<and> terminated \<inter> unmodified = {} \<and> terminated \<inter> modified = {}
            \<and> unmodified \<inter> modified = {}
            \<and> created \<union> terminated \<union> unmodified \<union> modified = keys previous \<union> keys current"
proof -
  from assms have p: "list_all (\<lambda>(pid, info). PID info = pid \<and> ShouldMonitorProcess c info) previous"
    and q: "list_all (\<lambda>(pid, info). PID info = pid \<and> ShouldMonitorProcess c info) current"
    by (simp_all add: well_formed_def)
  define evs where "evs = diff_events c now previous current"
  have cr: "event_pids ProcessCreated evs = keys current - keys previous"
    by (simp add: evs_def diff_events_def check_new_created [OF q] check_terminated_others)
  have te: "event_pids ProcessTerminated evs = keys previous - keys current"
    by (simp add: evs_def diff_events_def check_new_terminated check_terminated_terminated [OF p])
  have mo: "event_pids ProcessModified evs \<subseteq> keys previous \<inter> keys current"
    using check_new_modified [OF q, of now previous]
    by (auto simp: evs_def diff_events_def check_terminated_others)
  show ?thesis
    unfolding Let_def evs_def [symmetric] cr te unchanged_unmodified_def
    using mo by blast
qed

theorem diff_classes_partition_witness:
  "event_pids ProcessCreated (diff_events DefaultConfig 0 previous_snapshot current_snapshot) = {9}
   \<and> event_pids ProcessTerminated (diff_events DefaultConfig 0 previous_snapshot current_snapshot) = {200}"
proof -
  have wf: "well_formed DefaultConfig previous_snapshot" "well_formed DefaultConfig current_snapshot"
    by code_simp+
  have k: "keys current_snapshot - keys previous_snapshot = {9}"
    "keys previous_snapshot - keys current_snapshot = {200}"
    by (simp_all add: keys_def previous_snapshot_def current_snapshot_def insert_Diff_if)
  from diff_classes_partition [OF wf, of 0]
  have "event_pids ProcessCreated (diff_events DefaultConfig 0 previous_snapshot current_snapshot)
          = keys current_snapshot - keys previous_snapshot"
    and "event_pids ProcessTerminated (diff_events DefaultConfig 0 previous_snapshot current_snapshot)
          = keys previous_snapshot - keys current_snapshot"
    unfolding Let_def by (rule conjunct1, rule conjunct2 [THEN conjunct1])
  then show ?thesis by (simp only: k)
qed

section \<open>The filter in the diff\<close>

lemma fieldComparisons_filter_lists [simp]:
  "fieldComparisons (c\<lparr>ExcludedProcesses := ex, IncludedProcesses := inc, ExcludedUsers := us\<rparr>) now old new
     = fieldComparisons c now old new"
  by (simp add: fieldComparisons_def)

lemma compare_current_filter_lists:
  "compare_current (c\<lparr>ExcludedProcesses := ex, IncludedProcesses := inc, ExcludedUsers := us\<rparr>) now previous rest
     = compare_current c now previous rest"
  by (induction rest) (auto split: option.splits)

lemma check_new_unfiltered:
  assumes "list_all (\<lambda>(pid, info). ShouldMonitorProcess c info
             \<and> (map_of previous pid \<noteq> None \<longrightarrow> shouldMonitorProcess c info)) rest"
  shows "check_new c now previous rest = compare_current c now previous rest"
  using assms by (induction rest) (auto simp: detectModifications_def split: option.splits)

lemma check_terminated_unfiltered:
  assumes "list_all (\<lambda>(pid, info). ShouldMonitorProcess c info) rest"
  shows "check_terminated c now current rest = report_gone now current rest"
  using assms by (induction rest) auto

text \<open>
  C3 (amended). The compare section of a tick does ask the filter again: \<open>Monitor\<close> asks
  \<open>ProcessFilter.ShouldMonitorProcess\<close> before every event, and \<open>detectModifications\<close>
  asks the collector's own predicate. When every record of both snapshots passes the
  filter, and the collector's own predicate accepts the current record of every process
  of both snapshots, the events are those of the diff that asks no filter, which does
  not depend on the three filter lists.
\<close>

theorem diff_of_filtered_snapshots:
  assumes "list_all (\<lambda>(pid, info). ShouldMonitorProcess c info) previous"
    and "list_all (\<lambda>(pid, info). ShouldMonitorProcess c info
           \<and> (map_of previous pid \<noteq> None \<longrightarrow> shouldMonitorProcess c info)) current"
  shows "diff_events c now previous current = unfiltered_diff c now previous current
         \<and> unfiltered_diff (c\<lparr>ExcludedProcesses := ex, IncludedProcesses := inc, ExcludedUsers := us\<rparr>)
              now previous current
           = unfiltered_diff c now previous current"
  using check_new_unfiltered [OF assms(2)] check_terminated_unfiltered [OF assms(1)]
  by (simp add: diff_events_def unfiltered_diff_def compare_current_filter_lists)

theorem diff_of_filtered_snapshots_witness:
  "diff_events DefaultConfig 0 previous_snapshot current_snapshot
     = unfiltered_diff DefaultConfig 0 previous_snapshot current_snapshot
   \<and> unfiltered_diff (DefaultConfig\<lparr>ExcludedProcesses := [], IncludedProcesses := [''nginx*''], ExcludedUsers := []\<rparr>)
        0 previous_snapshot current_snapshot
     = unfiltered_diff DefaultConfig 0 previous_snapshot current_snapshot"
proof -
  have "list_all (\<lambda>(pid, info). ShouldMonitorProcess DefaultConfig info) previous_snapshot"
    and "list_all (\<lambda>(pid, info). ShouldMonitorProcess DefaultConfig info
           \<and> (map_of previous_snapshot pid \<noteq> None \<longrightarrow> shouldMonitorProcess DefaultConfig info)) current_snapshot"
    by code_simp+
  then show ?thesis
    by (rule diff_of_filtered_snapshots)
qed

text \<open>
  C3, as stated, fails. \<open>nginx.exe\<close> passes the filter under the default configuration and
  under the included-process list \<open>nginx*\<close>, so both snapshots are filter-closed for both;
  its command line changes. The diff reports the change under the first configuration
  and nothing under the second, which differs in the filter lists only. And the diff
  layer keeps an excluded process out by itself: for a current snapshot that holds
  \<open>svchost.exe\<close> it sends nothing, where the diff without a filter reports a creation.
\<close>

theorem diff_of_filtered_snapshots_counterexample:
  "ShouldMonitorProcess DefaultConfig nginx \<and> ShouldMonitorProcess DefaultConfig nginx_reloaded
   \<and> ShouldMonitorProcess nginx_config nginx \<and> ShouldMonitorProcess nginx_config nginx_reloaded
   \<and> nginx_config = DefaultConfig\<lparr>IncludedProcesses := [''nginx*'']\<rparr>
   \<and> diff_events DefaultConfig 0 [(7, nginx)] [(7, nginx_reloaded)] =
       [\<lparr> Type = ProcessModified, Timestamp = 0, Process = nginx_reloaded,
          ModType = CommandLineChange, Description = ''Command line modified'' \<rparr>]
   \<and> diff_events nginx_config 0 [(7, nginx)] [(7, nginx_reloaded)] = []
   \<and> diff_events DefaultConfig 0 [] [(9, svchost)] = []
   \<and> unfiltered_diff DefaultConfig 0 [] [(9, svchost)] = [created_event 0 svchost]"
  by code_simp

section \<open>Validation\<close>

lemma threshold_check:
  "\<not> (f64_le x (Finite 0) \<or> f64_gt x (Finite 1)) \<longleftrightarrow> x = NaN \<or> ratio_in_range x"
  by (cases x) (auto simp: f64_gt_def ratio_in_range_def)

lemma Validate_accepts_iff:
  "Validate c = None \<longleftrightarrow>
     100000000 \<le> sint (PollInterval c)
     \<and> (MemoryChangeThreshold c = NaN \<or> ratio_in_range (MemoryChangeThreshold c))
     \<and> (CPUThreshold c = NaN \<or> ratio_in_range (CPUThreshold c))
     \<and> 0 \<le> sint (ThreadChangeThreshold c)
     \<and> 0 \<le> sint (HandleChangeThreshold c)"
proof -
  have "sint (Millisecond * 100 :: int64) = 100000000" by (simp add: Millisecond_def)
  then show ?thesis
    using threshold_check [of "MemoryChangeThreshold c"] threshold_check [of "CPUThreshold c"]
    by (auto simp: Validate_def word_sless_alt)
qed

text \<open>\<open>main\<close> starts the collector with the default configuration, which is valid.\<close>

lemma DefaultConfig_valid: "Validate DefaultConfig = None"
  by code_simp

lemma LoadConfig_validates:
  "LoadConfig readFile unmarshal = Inr config \<Longrightarrow> Validate config = None"
  by (auto simp: LoadConfig_def split: sum.splits option.splits)

text \<open>
  C8. \<open>Validate\<close> rejects a poll interval below 100ms, a negative thread or handle
  threshold and every memory or CPU threshold outside \<open>(0, 1]\<close> but one: a threshold that
  is not a number passes both comparisons. The default configuration with such a memory
  threshold is accepted, and \<open>LoadConfig\<close> hands it to its caller.
\<close>

theorem Validate_accepts_nan:
  "Validate nan_config = None
   \<and> MemoryChangeThreshold nan_config = NaN
   \<and> \<not> ratio_in_range (MemoryChangeThreshold nan_config)
   \<and> LoadConfig (Inr ''memoryChangeThreshold: .nan'')
        (\<lambda>configFile config. Inr (config\<lparr>MemoryChangeThreshold := NaN\<rparr>)) = Inr nan_config"
proof -
  have v: "Validate nan_config = None" by code_simp
  have n: "MemoryChangeThreshold nan_config = NaN" by (simp add: nan_config_def)
  have "Validate (DefaultConfig\<lparr>MemoryChangeThreshold := NaN\<rparr>) = None"
    using v by (simp add: nan_config_def)
  then show ?thesis using v n by (simp add: LoadConfig_def ratio_in_range_def nan_config_def)
qed

section \<open>The scenarios of the specification\<close>

text \<open>Scenario A, on records handed to the compare section directly (the collector
  builds none with a \<open>ThreadCount\<close>): the field goes from 5 to 8 under a threshold of 2;
  one \<open>ThreadCountChange\<close> event with the change 3.\<close>

lemma scenario_A:
  "diff_events DefaultConfig 0
     [(100, (example_info 100 ''a.exe'' ''www'')\<lparr>ThreadCount := 5\<rparr>)]
     [(100, (example_info 100 ''a.exe'' ''www'')\<lparr>ThreadCount := 8\<rparr>)]
   = [\<lparr> Type = ProcessModified, Timestamp = 0,
        Process = (example_info 100 ''a.exe'' ''www'')\<lparr>ThreadCount := 8\<rparr>,
        ModType = ThreadCountChange, Description = ''Thread count changed by 3'' \<rparr>]"
  by code_simp

text \<open>Scenario B: the only process is gone; one \<open>ProcessTerminated\<close> event, and the
  retained snapshot becomes empty.\<close>

lemma scenario_B:
  "tick DefaultConfig 0 (Inr []) \<lparr> currentProcesses = [(200, example_info 200 ''cron'' ''www'')] \<rparr>
   = ([terminated_event 0 (example_info 200 ''cron'' ''www'')], \<lparr> currentProcesses = [] \<rparr>)"
  by code_simp

text \<open>Scenario C: a new process with an excluded name yields no event.\<close>

lemma scenario_C:
  "tick DefaultConfig 0 (Inr [running 9 ''svchost.exe'' ''SYSTEM'']) NewProcessCollector
   = ([], \<lparr> currentProcesses = [] \<rparr>)"
  by code_simp

text \<open>Scenario D: with the included-process list \<open>nginx.exe\<close>, of two new processes only
  \<open>nginx.exe\<close> is reported.\<close>

lemma scenario_D:
  "tick (DefaultConfig\<lparr>IncludedProcesses := [''nginx.exe'']\<rparr>) 0
     (Inr [running 7 ''nginx.exe'' ''www'', running 8 ''bash'' ''www'']) NewProcessCollector
   = ([created_event 0 (example_info 7 ''nginx.exe'' ''www'')],
      \<lparr> currentProcesses = [(7, example_info 7 ''nginx.exe'' ''www'')] \<rparr>)"
  by code_simp

end
